theory Spec2Isabelle
  imports Main "HOL-Library.Multiset"
begin

section \<open>Accounts and transactions\<close>

text \<open>
  The three programs of the repository, \<^verbatim>\<open>single/main.go\<close>,
  \<^verbatim>\<open>distributed/redis/main.go\<close> and \<^verbatim>\<open>distributed/mock_redis/main.go\<close> (the mock program),
  declare the same two structs. The Go field \<^verbatim>\<open>Balance\<close> and the \<^verbatim>\<open>Amount\<close> of a
  transaction are \<^verbatim>\<open>float64\<close>; here they are a type parameter \<open>'a\<close> that offers \<open>+\<close>,
  \<open>0\<close> and \<open><\<close>, the only operations the code applies to them. A theorem that needs a
  law of arithmetic says so in the sort of \<open>'a\<close>: a commutative monoid or a linear order
  with monotone addition is exact arithmetic, which \<^verbatim>\<open>float64\<close> is on the integral amounts
  of the programs but not in general. The mutex \<^verbatim>\<open>mu\<close> of \<^verbatim>\<open>single/main.go\<close> has no
  field: it makes the body of \<^verbatim>\<open>ProcessTransaction\<close> one atomic step, which is what a
  function of the account is.
\<close>

record 'a Account =
  AccountNumber :: string
  Balance :: 'a

record 'a Transaction =
  TxAccountNumber :: string    \<comment> \<open>the Go field is \<^verbatim>\<open>AccountNumber\<close>, as in \<^verbatim>\<open>Account\<close>\<close>
  Amount :: 'a

subsection \<open>Errors and printed outcomes\<close>

text \<open>
  An error a store client returns: \<^verbatim>\<open>fmt.Errorf("key not found")\<close> of \<^verbatim>\<open>MockRedis.Get\<close>, the
  sentinel \<^verbatim>\<open>redis.Nil\<close> of go-redis, or any other failure of the backing store. An error
  \<^verbatim>\<open>ReleaseLock\<close> returns: its own \<^verbatim>\<open>fmt.Errorf("lock not found")\<close>, or the client's error
  handed on as it is.
\<close>

datatype client_error = KeyNotFound | RedisNil | StoreFailure string

datatype lock_error = LockNotFound | ClientError client_error

text \<open>What a call of \<^verbatim>\<open>ProcessTransaction\<close> (or \<^verbatim>\<open>main\<close>, for a missing account) prints.\<close>

datatype outcome =
    Processed                   \<comment> \<open>\<^verbatim>\<open>Processed transaction of ... New balance: ...\<close>\<close>
  | InsufficientFunds           \<comment> \<open>\<^verbatim>\<open>Insufficient funds for account ...\<close>\<close>
  | LockSkipped                 \<comment> \<open>\<^verbatim>\<open>Could not acquire lock for account ... Transaction skipped.\<close>\<close>
  | AcquireError client_error   \<comment> \<open>\<^verbatim>\<open>Error acquiring lock for account ...\<close>\<close>
  | AccountNotFound             \<comment> \<open>\<^verbatim>\<open>Account ... not found\<close>\<close>

subsection \<open>The critical section\<close>

text \<open>
  \<^verbatim>\<open>single/main.go\<close>, \<^verbatim>\<open>Account.ProcessTransaction\<close>: under the account's mutex,
  \<^verbatim>\<open>if amount < 0 && a.Balance+amount < 0 { print; return }; a.Balance += amount\<close>.
  The result is the printed outcome and the account as the call leaves it.
\<close>

definition Account_ProcessTransaction ::
  "('a::{plus,zero,ord}) Account \<Rightarrow> 'a \<Rightarrow> outcome \<times> 'a Account" where
  "Account_ProcessTransaction a amount =
     (if amount < 0 \<and> Balance a + amount < 0 then (InsufficientFunds, a)
      else (Processed, a\<lparr>Balance := Balance a + amount\<rparr>))"

text \<open>
  The critical sections of one account, run one after the other in the order the mutex
  serialises them: the outcomes in that order, and the account at the end.
\<close>

fun serial :: "('a::{plus,zero,ord}) Account \<Rightarrow> 'a list \<Rightarrow> outcome list \<times> 'a Account" where
  "serial a [] = ([], a)"
| "serial a (amount # rest) =
     (case Account_ProcessTransaction a amount of
        (out, a') \<Rightarrow> (case serial a' rest of (outs, a'') \<Rightarrow> (out # outs, a'')))"

text \<open>
  \<^verbatim>\<open>single/main.go\<close>, \<^verbatim>\<open>main\<close>: each transaction whose account is in the map gets a
  goroutine running \<^verbatim>\<open>ProcessTransaction\<close> on the account the map points to; the others are
  reported as not found. The list given here is the order in which the goroutines pass their
  critical sections (goroutines of different accounts touch different accounts, so an
  execution is one such order). The result is the map at \<^verbatim>\<open>wg.Wait()\<close> and what was printed
  for each transaction.
\<close>

fun main_loop ::
  "(string \<rightharpoonup> ('a::{plus,zero,ord}) Account) \<Rightarrow> 'a Transaction list
     \<Rightarrow> (string \<rightharpoonup> 'a Account) \<times> ('a Transaction \<times> outcome) list" where
  "main_loop accounts [] = (accounts, [])"
| "main_loop accounts (t # ts) =
     (case accounts (TxAccountNumber t) of
        None \<Rightarrow>
          (case main_loop accounts ts of (accounts', log) \<Rightarrow>
             (accounts', (t, AccountNotFound) # log))
      | Some a \<Rightarrow>
          (case Account_ProcessTransaction a (Amount t) of (out, a') \<Rightarrow>
             (case main_loop (accounts(TxAccountNumber t \<mapsto> a')) ts of (accounts', log) \<Rightarrow>
                (accounts', (t, out) # log))))"

text \<open>The accounts and the transactions of \<^verbatim>\<open>main\<close> (and of the test of the mock program).\<close>

definition accounts0 :: "string \<rightharpoonup> ('a::numeral) Account" where
  "accounts0 =
     [''11111'' \<mapsto> \<lparr>AccountNumber = ''11111'', Balance = 1000\<rparr>,
      ''22222'' \<mapsto> \<lparr>AccountNumber = ''22222'', Balance = 2000\<rparr>]"

definition transactions0 :: "('a::{numeral,uminus}) Transaction list" where
  "transactions0 =
     [\<lparr>TxAccountNumber = ''11111'', Amount = - 200\<rparr>,
      \<lparr>TxAccountNumber = ''11111'', Amount = 300\<rparr>,
      \<lparr>TxAccountNumber = ''22222'', Amount = - 500\<rparr>,
      \<lparr>TxAccountNumber = ''22222'', Amount = - 3000\<rparr>,
      \<lparr>TxAccountNumber = ''11111'', Amount = 100\<rparr>]"

subsection \<open>The arithmetic of \<^verbatim>\<open>float64\<close>\<close>

text \<open>
  Two things set \<^verbatim>\<open>float64\<close> apart from the numbers of arithmetic. A sum may be rounded; and
  there is a value NaN, which every sum with it yields and which compares false with every
  value, itself and zero included. For the first, \<open>exact_along ex a amounts\<close> says of a run
  of critical sections that every addition it performs is exact: \<open>ex\<close> gives the number a
  value of the balance type stands for, in a type with the laws of arithmetic, and the
  machine sum stands for the sum of the two numbers. For the second, \<open>fnum\<close> is the integers
  with a NaN, under the rules of \<^verbatim>\<open>float64\<close> for it: enough to run the critical section on
  an amount NaN.
\<close>

fun exact_along ::
  "('a \<Rightarrow> 'b::plus) \<Rightarrow> ('a::{plus,zero,ord}) Account \<Rightarrow> 'a list \<Rightarrow> bool" where
  "exact_along ex a [] = True"
| "exact_along ex a (amount # rest) =
     ((fst (Account_ProcessTransaction a amount) = Processed \<longrightarrow>
         ex (Balance a + amount) = ex (Balance a) + ex amount)
      \<and> exact_along ex (snd (Account_ProcessTransaction a amount)) rest)"

datatype fnum = Val int | NaN

instantiation fnum :: "{zero,plus,ord}"
begin

definition zero_fnum :: fnum where
  "zero_fnum = Val 0"

fun plus_fnum :: "fnum \<Rightarrow> fnum \<Rightarrow> fnum" where
  "plus_fnum (Val x) (Val y) = Val (x + y)"
| "plus_fnum _ _ = NaN"

fun less_fnum :: "fnum \<Rightarrow> fnum \<Rightarrow> bool" where
  "less_fnum (Val x) (Val y) = (x < y)"
| "less_fnum _ _ = False"

fun less_eq_fnum :: "fnum \<Rightarrow> fnum \<Rightarrow> bool" where
  "less_eq_fnum (Val x) (Val y) = (x \<le> y)"
| "less_eq_fnum _ _ = False"

instance ..

end

section \<open>The lock store\<close>

subsection \<open>The in-process store \<^verbatim>\<open>MockRedis\<close>\<close>

text \<open>
  \<^verbatim>\<open>type MockRedis struct { data map[string]string; mu sync.Mutex }\<close>. Every method holds
  \<^verbatim>\<open>mu\<close> from its first line to its return, so a method is one atomic step: a function of
  the store. \<^verbatim>\<open>SetNX\<close> also starts a goroutine,
  \<^verbatim>\<open>go func() { time.Sleep(ttl); r.mu.Lock(); ...; if r.data[key] == value { delete(r.data, key) } }()\<close>.
  Such a goroutine is first \<open>Spawned\<close>: created, not yet run. When the scheduler first runs
  it, it calls \<^verbatim>\<open>time.Sleep\<close> and is \<open>Asleep\<close> until the time of that call plus the TTL.
  When the scheduler runs it again after that time, it takes \<^verbatim>\<open>mu\<close> and does its check and
  delete, and is \<open>Finished\<close>. When the scheduler runs a goroutine is not fixed by the
  program. The goroutines are kept in \<open>timers\<close>, in the order of their creation, and
  \<open>clock\<close> is the current time in nanoseconds (\<^verbatim>\<open>time.Duration\<close> counts nanoseconds).
  Both belong to the Go runtime rather than to the struct.
\<close>

datatype sleeper =
    Spawned int string string    \<comment> \<open>TTL, key, value\<close>
  | Asleep int string string     \<comment> \<open>end of the sleep, key, value\<close>
  | Finished

record MockRedis =
  data :: "string \<rightharpoonup> string"
  timers :: "sleeper list"
  clock :: int

definition Millisecond :: int where "Millisecond = 1000000"
definition Second :: int where "Second = 1000000000"

definition NewMockRedis :: "int \<Rightarrow> MockRedis" where
  "NewMockRedis t = \<lparr>data = Map.empty, timers = [], clock = t\<rparr>"

text \<open>
  \<^verbatim>\<open>SetNX\<close>: \<^verbatim>\<open>if _, exists := r.data[key]; exists { return false, nil }\<close>, else store the
  value, create the goroutine and return \<^verbatim>\<open>true, nil\<close>.
\<close>

definition MockRedis_SetNX ::
  "MockRedis \<Rightarrow> string \<Rightarrow> string \<Rightarrow> int \<Rightarrow> (client_error + bool) \<times> MockRedis" where
  "MockRedis_SetNX r key v ttl =
     (if data r key \<noteq> None then (Inr False, r)
      else (Inr True,
            r\<lparr>data := (data r)(key \<mapsto> v),
              timers := timers r @ [Spawned ttl key v]\<rparr>))"

definition MockRedis_Get :: "MockRedis \<Rightarrow> string \<Rightarrow> (client_error + string) \<times> MockRedis" where
  "MockRedis_Get r key =
     (case data r key of None \<Rightarrow> (Inl KeyNotFound, r) | Some v \<Rightarrow> (Inr v, r))"

definition MockRedis_Del :: "MockRedis \<Rightarrow> string \<Rightarrow> (client_error + int) \<times> MockRedis" where
  "MockRedis_Del r key =
     (case data r key of
        None \<Rightarrow> (Inr 0, r)
      | Some _ \<Rightarrow> (Inr 1, r\<lparr>data := (data r)(key := None)\<rparr>))"

text \<open>
  The body of the goroutine once it has slept and holds \<^verbatim>\<open>mu\<close>:
  \<^verbatim>\<open>if r.data[key] == value { delete(r.data, key) }\<close>. Reading a missing key of a Go map gives
  the empty string.
\<close>

definition reap :: "MockRedis \<Rightarrow> string \<Rightarrow> string \<Rightarrow> MockRedis" where
  "reap r key v =
     (if (case data r key of None \<Rightarrow> [] | Some u \<Rightarrow> u) = v
      then r\<lparr>data := (data r)(key := None)\<rparr> else r)"

text \<open>
  The scheduler runs goroutine \<open>n\<close> of \<open>timers\<close>. A spawned one calls \<^verbatim>\<open>time.Sleep\<close>, which
  returns at once for a duration that is not positive and otherwise not before the duration
  has passed. One whose sleep is over does its check and delete. One still asleep, or
  finished, or not there, does nothing.
\<close>

definition run_sleeper :: "nat \<Rightarrow> MockRedis \<Rightarrow> MockRedis" where
  "run_sleeper n r =
     (if n < length (timers r) then
        (case timers r ! n of
           Spawned ttl key v \<Rightarrow> r\<lparr>timers := (timers r)[n := Asleep (clock r + max 0 ttl) key v]\<rparr>
         | Asleep w key v \<Rightarrow>
             if w \<le> clock r then (reap r key v)\<lparr>timers := (timers r)[n := Finished]\<rparr> else r
         | Finished \<Rightarrow> r)
      else r)"

text \<open>Time passing: the clock advances by \<open>d\<close>, and nothing else happens.\<close>

definition elapse :: "int \<Rightarrow> MockRedis \<Rightarrow> MockRedis" where
  "elapse d r = r\<lparr>clock := clock r + max 0 d\<rparr>"

text \<open>
  A history of the store: calls of its methods by any caller, time passing, and the scheduler
  running one of the goroutines of \<open>timers\<close>.
\<close>

datatype store_op =
    OpSetNX string string int
  | OpGet string
  | OpDel string
  | OpElapse int
  | OpRun nat

fun apply_op :: "MockRedis \<Rightarrow> store_op \<Rightarrow> MockRedis" where
  "apply_op r (OpSetNX key v ttl) = snd (MockRedis_SetNX r key v ttl)"
| "apply_op r (OpGet key) = snd (MockRedis_Get r key)"
| "apply_op r (OpDel key) = snd (MockRedis_Del r key)"
| "apply_op r (OpElapse d) = elapse d r"
| "apply_op r (OpRun n) = run_sleeper n r"

fun apply_ops :: "MockRedis \<Rightarrow> store_op list \<Rightarrow> MockRedis" where
  "apply_ops r [] = r"
| "apply_ops r (x # xs) = apply_ops (apply_op r x) xs"

text \<open>Whether some \<^verbatim>\<open>SetNX\<close> of the history acquires \<open>key\<close>, and the time the history takes.\<close>

fun reacquired :: "string \<Rightarrow> MockRedis \<Rightarrow> store_op list \<Rightarrow> bool" where
  "reacquired key r [] = False"
| "reacquired key r (x # xs) =
     ((case x of OpSetNX k v ttl \<Rightarrow> k = key \<and> data r k = None | _ \<Rightarrow> False)
      \<or> reacquired key (apply_op r x) xs)"

text \<open>Whether a goroutine, when its body runs, compares the key \<open>key\<close> with the value \<open>v\<close>.\<close>

fun aims_at :: "string \<Rightarrow> string \<Rightarrow> sleeper \<Rightarrow> bool" where
  "aims_at key v (Spawned ttl k u) = (k = key \<and> u = v)"
| "aims_at key v (Asleep w k u) = (k = key \<and> u = v)"
| "aims_at key v Finished = False"

fun elapsed :: "store_op list \<Rightarrow> int" where
  "elapsed [] = 0"
| "elapsed (OpElapse d # xs) = max 0 d + elapsed xs"
| "elapsed (_ # xs) = elapsed xs"

text \<open>
  Two invariants of a history, about the goroutine \<open>n\<close> that an acquisition of \<open>k\<close> with
  value \<open>v\<close> and TTL \<open>ttl\<close> created at time \<open>t0\<close>. \<open>tracked\<close>, kept as long as nobody
  acquires \<open>k\<close> again: until the goroutine has run, the key holds \<open>v\<close> or nothing and the
  sleep does not end before \<open>t0 + ttl\<close>; once it has run, that time has come and the key
  holds nothing. \<open>kept\<close>, kept as long as nobody deletes \<open>k\<close> and the time \<open>t0 + ttl\<close>
  has not come: the key holds \<open>v\<close> and no other goroutine compares \<open>k\<close> with \<open>v\<close>.
\<close>

definition tracked :: "nat \<Rightarrow> string \<Rightarrow> string \<Rightarrow> int \<Rightarrow> int \<Rightarrow> MockRedis \<Rightarrow> bool" where
  "tracked n k v ttl t0 r \<longleftrightarrow>
     n < length (timers r) \<and> t0 \<le> clock r \<and>
     ((timers r ! n = Spawned ttl k v \<or> (\<exists>w. timers r ! n = Asleep w k v \<and> t0 + max 0 ttl \<le> w))
        \<and> (data r k = None \<or> data r k = Some v)
      \<or> timers r ! n = Finished \<and> t0 + max 0 ttl \<le> clock r \<and> data r k = None)"

definition kept :: "nat \<Rightarrow> string \<Rightarrow> string \<Rightarrow> int \<Rightarrow> int \<Rightarrow> MockRedis \<Rightarrow> bool" where
  "kept n k v ttl t0 r \<longleftrightarrow>
     n < length (timers r) \<and> t0 \<le> clock r \<and> data r k = Some v \<and>
     (timers r ! n = Spawned ttl k v \<or> (\<exists>w. timers r ! n = Asleep w k v \<and> t0 + max 0 ttl \<le> w)) \<and>
     (\<forall>m < length (timers r). m \<noteq> n \<longrightarrow> \<not> aims_at k v (timers r ! m))"

subsection \<open>The client interface\<close>

text \<open>
  \<^verbatim>\<open>distributed/redis\<close> calls the store through three methods (in its later version the
  interface \<^verbatim>\<open>RedisClient\<close>): \<^verbatim>\<open>SetNX\<close>, \<^verbatim>\<open>Get\<close> and \<^verbatim>\<open>Del\<close>, each returning a value and an
  error. Here a client is these three functions over a store of any type \<open>'s\<close>; the Go
  pair (value, error) is a sum, the error on the left. The mock program calls the same three
  methods on \<^verbatim>\<open>*MockRedis\<close>, which is the client \<open>MockRedis_client\<close>; its lock and
  \<^verbatim>\<open>ProcessTransaction\<close> are written below against the interface as well, so that the branches
  for a failing store, which \<^verbatim>\<open>MockRedis\<close> never takes, are part of the model.
\<close>

record 's RedisClient =
  SetNX :: "'s \<Rightarrow> string \<Rightarrow> string \<Rightarrow> int \<Rightarrow> (client_error + bool) \<times> 's"
  Get :: "'s \<Rightarrow> string \<Rightarrow> (client_error + string) \<times> 's"
  Del :: "'s \<Rightarrow> string \<Rightarrow> (client_error + int) \<times> 's"

definition MockRedis_client :: "MockRedis RedisClient" where
  "MockRedis_client = \<lparr>SetNX = MockRedis_SetNX, Get = MockRedis_Get, Del = MockRedis_Del\<rparr>"

section \<open>The distributed lock\<close>

text \<open>
  \<^verbatim>\<open>type RedisLock struct { client; key string; value string }\<close>. The client is passed
  next to the lock; the fields are \<open>lock_key\<close> and \<open>lock_value\<close> (\<open>value\<close> is a keyword
  of Isabelle).
\<close>

record RedisLock =
  lock_key :: string
  lock_value :: string

text \<open>
  A goroutine shares the store with the others. Between two of its calls of the store the
  others may call it too, and time may pass: while it sleeps between two attempts to acquire,
  while it works in the critical section, and between the \<^verbatim>\<open>Get\<close> and the \<^verbatim>\<open>Del\<close> of
  \<^verbatim>\<open>ReleaseLock\<close>. What happens to the store at each of these pauses is a parameter of the
  functions below, an arbitrary function of the store.
\<close>

datatype pause =
    Sleeping nat    \<comment> \<open>the sleep after attempt \<open>i\<close> of the retry loop\<close>
  | Working         \<comment> \<open>from the lock acquired to the deferred release\<close>
  | Releasing       \<comment> \<open>inside \<^verbatim>\<open>ReleaseLock\<close>, between \<^verbatim>\<open>Get\<close> and \<^verbatim>\<open>Del\<close>\<close>

text \<open>
  \<^verbatim>\<open>distributed/redis/main.go\<close>: \<^verbatim>\<open>AcquireLock\<close> hands on the result of \<^verbatim>\<open>SetNX\<close>, with
  \<^verbatim>\<open>false\<close> next to an error. \<^verbatim>\<open>ReleaseLock\<close> reads the key; \<^verbatim>\<open>redis.Nil\<close> becomes
  \<^verbatim>\<open>lock not found\<close>, another error is returned as it is; the key is deleted only when the
  value read is the lock's own. The argument \<open>e\<close> is what the others do to the store
  between the two calls.
\<close>

definition AcquireLock ::
  "'s RedisClient \<Rightarrow> RedisLock \<Rightarrow> int \<Rightarrow> 's \<Rightarrow> (client_error + bool) \<times> 's" where
  "AcquireLock c lock ttl s =
     (case SetNX c s (lock_key lock) (lock_value lock) ttl of
        (Inl err, s') \<Rightarrow> (Inl err, s')
      | (Inr success, s') \<Rightarrow> (Inr success, s'))"

definition ReleaseLock ::
  "'s RedisClient \<Rightarrow> ('s \<Rightarrow> 's) \<Rightarrow> RedisLock \<Rightarrow> 's \<Rightarrow> lock_error option \<times> 's" where
  "ReleaseLock c e lock s =
     (case Get c s (lock_key lock) of
        (Inl err, s') \<Rightarrow>
          if err = RedisNil then (Some LockNotFound, s') else (Some (ClientError err), s')
      | (Inr v, s') \<Rightarrow>
          if v = lock_value lock then
            (case Del c (e s') (lock_key lock) of
               (Inl err, s'') \<Rightarrow> (Some (ClientError err), s'')
             | (Inr _, s'') \<Rightarrow> (None, s''))
          else (None, s'))"

text \<open>
  The mock program: \<^verbatim>\<open>AcquireLock\<close> returns what \<^verbatim>\<open>SetNX\<close> returns. \<^verbatim>\<open>ReleaseLock\<close> turns
  every error of \<^verbatim>\<open>Get\<close> into \<^verbatim>\<open>lock not found\<close>; the rest is as above.
\<close>

definition AcquireLock_mock ::
  "'s RedisClient \<Rightarrow> RedisLock \<Rightarrow> int \<Rightarrow> 's \<Rightarrow> (client_error + bool) \<times> 's" where
  "AcquireLock_mock c lock ttl s = SetNX c s (lock_key lock) (lock_value lock) ttl"

definition ReleaseLock_mock ::
  "'s RedisClient \<Rightarrow> ('s \<Rightarrow> 's) \<Rightarrow> RedisLock \<Rightarrow> 's \<Rightarrow> lock_error option \<times> 's" where
  "ReleaseLock_mock c e lock s =
     (case Get c s (lock_key lock) of
        (Inl err, s') \<Rightarrow> (Some LockNotFound, s')
      | (Inr v, s') \<Rightarrow>
          if v = lock_value lock then
            (case Del c (e s') (lock_key lock) of
               (Inl err, s'') \<Rightarrow> (Some (ClientError err), s'')
             | (Inr _, s'') \<Rightarrow> (None, s''))
          else (None, s'))"

section \<open>Transactions under the distributed lock\<close>

text \<open>
  What a call of \<^verbatim>\<open>ProcessTransaction\<close> did to the store, in order: its calls of
  \<^verbatim>\<open>AcquireLock\<close> with their results, and its calls of \<^verbatim>\<open>time.Sleep\<close>. A finished call
  is what it printed, the account and the store as it leaves them, and these events.
\<close>

datatype event = Acquire "client_error + bool" | Sleep int

record ('a, 's) finished =
  printed :: outcome
  account_after :: "'a Account"
  store_after :: 's
  events :: "event list"

subsection \<open>\<^verbatim>\<open>distributed/redis/main.go\<close>\<close>

text \<open>
  The lock of an account: \<^verbatim>\<open>key: fmt.Sprintf("account:%s:lock", account.AccountNumber)\<close>,
  \<^verbatim>\<open>value: "unique-identifier", // Use a UUID in production\<close>.
\<close>

definition NewLock_redis :: "'a Account \<Rightarrow> RedisLock" where
  "NewLock_redis account =
     \<lparr>lock_key = ''account:'' @ AccountNumber account @ '':lock'',
      lock_value = ''unique-identifier''\<rparr>"

text \<open>
  One attempt with a TTL of five seconds; an error or a lock that is held ends the call. With
  the lock, the critical section of \<^verbatim>\<open>single/main.go\<close> follows, word for word, and the
  deferred \<^verbatim>\<open>ReleaseLock\<close> runs on the way out, its error dropped. The account is the one
  the critical section finds.
\<close>

definition ProcessTransaction_redis ::
  "'s RedisClient \<Rightarrow> (pause \<Rightarrow> 's \<Rightarrow> 's) \<Rightarrow> ('a::{plus,zero,ord}) Account \<Rightarrow> 'a Transaction
     \<Rightarrow> 's \<Rightarrow> ('a, 's) finished" where
  "ProcessTransaction_redis c env account transaction s =
     (let lock = NewLock_redis account in
      case AcquireLock c lock (5 * Second) s of
        (Inl err, s') \<Rightarrow>
          \<lparr>printed = AcquireError err, account_after = account, store_after = s',
           events = [Acquire (Inl err)]\<rparr>
      | (Inr acquired, s') \<Rightarrow>
          if \<not> acquired then
            \<lparr>printed = LockSkipped, account_after = account, store_after = s',
             events = [Acquire (Inr acquired)]\<rparr>
          else if Amount transaction < 0 \<and> Balance account + Amount transaction < 0 then
            \<lparr>printed = InsufficientFunds, account_after = account,
             store_after = snd (ReleaseLock c (env Releasing) lock (env Working s')),
             events = [Acquire (Inr acquired)]\<rparr>
          else
            \<lparr>printed = Processed,
             account_after = account\<lparr>Balance := Balance account + Amount transaction\<rparr>,
             store_after = snd (ReleaseLock c (env Releasing) lock (env Working s')),
             events = [Acquire (Inr acquired)]\<rparr>)"

subsection \<open>The mock program\<close>

text \<open>\<^verbatim>\<open>%d\<close> of \<^verbatim>\<open>fmt.Sprintf\<close>: the decimal digits of an integer, with its sign.\<close>

function show_nat :: "nat \<Rightarrow> string" where
  "show_nat n =
     (if n < 10 then [''0123456789'' ! n]
      else show_nat (n div 10) @ [''0123456789'' ! (n mod 10)])"
  by pat_completeness auto
termination
  by (relation "measure id") auto

declare show_nat.simps [simp del]

definition Sprintf_d :: "int \<Rightarrow> string" where
  "Sprintf_d i = (if i < 0 then CHR ''-'' # show_nat (nat (- i)) else show_nat (nat i))"

text \<open>
  The lock of an account: the same key, and
  \<^verbatim>\<open>value: fmt.Sprintf("unique-identifier-%d", time.Now().UnixNano())\<close>. The reading of the
  clock is the argument \<open>nano\<close>.
\<close>

definition NewLock_mock :: "int \<Rightarrow> 'a Account \<Rightarrow> RedisLock" where
  "NewLock_mock nano account =
     \<lparr>lock_key = ''account:'' @ AccountNumber account @ '':lock'',
      lock_value = ''unique-identifier-'' @ Sprintf_d nano\<rparr>"

text \<open>
  The retry loop \<^verbatim>\<open>for i := 0; i < 3; i++\<close>, from \<open>i\<close> on. An error returns, a success
  breaks, a third failure (\<^verbatim>\<open>i == 2\<close>) returns, any other failure sleeps 100 ms and goes
  round. While the caller sleeps the other goroutines and the sleepers of the store go on:
  \<open>env (Sleeping i)\<close> is what they do to the store during the sleep after attempt \<open>i\<close>.
  The loop either leaves the function with something printed (\<open>Inl\<close>) or goes on to the
  critical section (\<open>Inr\<close>), which is again that of \<^verbatim>\<open>single/main.go\<close>, on the account
  as the critical section finds it, followed by the deferred \<^verbatim>\<open>ReleaseLock\<close>.
\<close>

function retry_loop ::
  "'s RedisClient \<Rightarrow> (pause \<Rightarrow> 's \<Rightarrow> 's) \<Rightarrow> RedisLock \<Rightarrow> nat \<Rightarrow> 's
     \<Rightarrow> (outcome + unit) \<times> 's \<times> event list" where
  "retry_loop c env lock i s =
     (if i < 3 then
        (case AcquireLock_mock c lock (5 * Second) s of
           (Inl err, s') \<Rightarrow> (Inl (AcquireError err), s', [Acquire (Inl err)])
         | (Inr acquired, s') \<Rightarrow>
             if acquired then (Inr (), s', [Acquire (Inr acquired)])
             else if i = 2 then (Inl LockSkipped, s', [Acquire (Inr acquired)])
             else
               (case retry_loop c env lock (i + 1) (env (Sleeping i) s') of
                  (exit, s'', evs) \<Rightarrow>
                    (exit, s'', Acquire (Inr acquired) # Sleep (100 * Millisecond) # evs)))
      else (Inr (), s, []))"
  by pat_completeness auto
termination
  by (relation "measure (\<lambda>(c, env, lock, i, s). 3 - i)") auto

declare retry_loop.simps [simp del]

definition ProcessTransaction_mock ::
  "'s RedisClient \<Rightarrow> (pause \<Rightarrow> 's \<Rightarrow> 's) \<Rightarrow> int \<Rightarrow> ('a::{plus,zero,ord}) Account \<Rightarrow> 'a Transaction
     \<Rightarrow> 's \<Rightarrow> ('a, 's) finished" where
  "ProcessTransaction_mock c env nano account transaction s =
     (let lock = NewLock_mock nano account in
      case retry_loop c env lock 0 s of
        (Inl out, s', evs) \<Rightarrow>
          \<lparr>printed = out, account_after = account, store_after = s', events = evs\<rparr>
      | (Inr _, s', evs) \<Rightarrow>
          if Amount transaction < 0 \<and> Balance account + Amount transaction < 0 then
            \<lparr>printed = InsufficientFunds, account_after = account,
             store_after = snd (ReleaseLock_mock c (env Releasing) lock (env Working s')),
             events = evs\<rparr>
          else
            \<lparr>printed = Processed,
             account_after = account\<lparr>Balance := Balance account + Amount transaction\<rparr>,
             store_after = snd (ReleaseLock_mock c (env Releasing) lock (env Working s')),
             events = evs\<rparr>)"

text \<open>
  The test of the mock program (\<^verbatim>\<open>TestProcessTransactionWithMockRedis\<close>) starts one goroutine
  per transaction on one \<^verbatim>\<open>MockRedis\<close>. Below the calls run one after the other, in the order
  of the list, each with its reading of the clock: the executions in which no two calls
  overlap. A call is then \<open>alone\<close>: at its pauses nobody else calls the store, and time
  passes only while it sleeps. The goroutines of the store sleep for five seconds and do not
  get to their check in that time.
\<close>

definition alone :: "pause \<Rightarrow> MockRedis \<Rightarrow> MockRedis" where
  "alone p r = (case p of Sleeping i \<Rightarrow> elapse (100 * Millisecond) r | _ \<Rightarrow> r)"

fun test_loop_mock ::
  "(string \<rightharpoonup> ('a::{plus,zero,ord}) Account) \<Rightarrow> MockRedis \<Rightarrow> (int \<times> 'a Transaction) list
     \<Rightarrow> (string \<rightharpoonup> 'a Account) \<times> MockRedis \<times> ('a Transaction \<times> outcome) list" where
  "test_loop_mock accounts r [] = (accounts, r, [])"
| "test_loop_mock accounts r ((nano, t) # ts) =
     (case accounts (TxAccountNumber t) of
        None \<Rightarrow>
          (case test_loop_mock accounts r ts of (accounts', r', log) \<Rightarrow>
             (accounts', r', (t, AccountNotFound) # log))
      | Some a \<Rightarrow>
          (let run = ProcessTransaction_mock MockRedis_client alone nano a t r
           in case test_loop_mock (accounts(TxAccountNumber t \<mapsto> account_after run))
                     (store_after run) ts of
                (accounts', r', log) \<Rightarrow> (accounts', r', (t, printed run) # log)))"

section \<open>Orders of a list\<close>

text \<open>
  Every order of a list, by inserting the head at each position of every order of the tail.
  A list with the same elements as \<open>xs\<close> is among \<open>orders xs\<close> (\<open>orders_complete\<close> below),
  which turns a statement about all orders of the five transactions of \<^verbatim>\<open>main\<close> into a
  finite check.
\<close>

fun inserts :: "'a \<Rightarrow> 'a list \<Rightarrow> 'a list list" where
  "inserts x [] = [[x]]"
| "inserts x (y # ys) = (x # y # ys) # map ((#) y) (inserts x ys)"

fun orders :: "'a list \<Rightarrow> 'a list list" where
  "orders [] = [[]]"
| "orders (x # xs) = concat (map (inserts x) (orders xs))"

section \<open>Properties of the critical section\<close>

text \<open>
  C3. Inside the critical section a negative amount with \<open>balance + amount < 0\<close> is rejected
  with \<open>InsufficientFunds\<close> and the account is left as it was; every other amount is added to
  the balance. So after a debit the balance is either the one before or not below zero.
  No law of arithmetic is used: the statement holds for every reading of \<open>+\<close>, \<open>0\<close>
  and \<open><\<close>, that of \<^verbatim>\<open>float64\<close> among them.
\<close>

theorem C3_critical_section:
  fixes a :: "('a::{plus,zero,ord}) Account" and amount :: 'a
  shows
    "(amount < 0 \<and> Balance a + amount < 0 \<longrightarrow>
        Account_ProcessTransaction a amount = (InsufficientFunds, a))
     \<and> (\<not> (amount < 0 \<and> Balance a + amount < 0) \<longrightarrow>
        Account_ProcessTransaction a amount = (Processed, a\<lparr>Balance := Balance a + amount\<rparr>))
     \<and> (amount < 0 \<longrightarrow>
        Balance (snd (Account_ProcessTransaction a amount)) = Balance a
        \<or> \<not> Balance (snd (Account_ProcessTransaction a amount)) < 0)"
  by (simp add: Account_ProcessTransaction_def)

theorem C3_critical_section_witness:
  "Account_ProcessTransaction \<lparr>AccountNumber = ''22222'', Balance = 1500\<rparr> (- 3000 :: int)
     = (InsufficientFunds, \<lparr>AccountNumber = ''22222'', Balance = 1500\<rparr>)
   \<and> Account_ProcessTransaction \<lparr>AccountNumber = ''22222'', Balance = 2000\<rparr> (- 500 :: int)
     = (Processed, \<lparr>AccountNumber = ''22222'', Balance = 1500\<rparr>)"
  using C3_critical_section [of "- 3000 :: int" "\<lparr>AccountNumber = ''22222'', Balance = 1500\<rparr>"]
    C3_critical_section [of "- 500 :: int" "\<lparr>AccountNumber = ''22222'', Balance = 2000\<rparr>"]
  by simp

lemma serial_exact_sum:
  fixes a :: "('a::{plus,zero,ord}) Account" and ex :: "'a \<Rightarrow> 'b::comm_monoid_add"
  shows "serial a ys = (outs, a') \<Longrightarrow> InsufficientFunds \<notin> set outs \<Longrightarrow> exact_along ex a ys \<Longrightarrow>
     ex (Balance a') = ex (Balance a) + sum_list (map ex ys)"
proof (induction ys arbitrary: a outs a')
  case Nil
  then show ?case by simp
next
  case (Cons y ys)
  obtain out a1 where s1: "Account_ProcessTransaction a y = (out, a1)"
    by (cases "Account_ProcessTransaction a y :: outcome \<times> 'a Account")
  obtain outs1 a2 where s2: "serial a1 ys = (outs1, a2)"
    by (cases "serial a1 ys")
  from Cons.prems(1) s1 s2 have o: "outs = out # outs1" and a': "a' = a2" by auto
  from o Cons.prems(2) have ni: "out \<noteq> InsufficientFunds" and nr: "InsufficientFunds \<notin> set outs1"
    by auto
  from ni s1 have p: "out = Processed" and b1: "Balance a1 = Balance a + y"
    by (auto simp: Account_ProcessTransaction_def split: if_splits)
  from Cons.prems(3) s1 p have e1: "ex (Balance a + y) = ex (Balance a) + ex y"
    and er: "exact_along ex a1 ys"
    by simp_all
  from Cons.IH [OF s2 nr er] have "ex (Balance a2) = ex (Balance a1) + sum_list (map ex ys)" .
  with b1 e1 a' show ?case by (simp add: add.assoc)
qed

text \<open>
  C4, for the orders without a rejection and without rounding. In every order of the amounts
  in which no debit is rejected and every addition of the run is exact, the final balance
  stands for the initial balance plus the sum of all amounts (so two such orders end with
  the same balance). The balances are of any type with \<open>+\<close>, \<open>0\<close> and \<open><\<close>,
  \<^verbatim>\<open>float64\<close> included; the laws of arithmetic are asked of the numbers they stand for only.
\<close>

theorem C4_conservation:
  fixes a :: "('a::{plus,zero,ord}) Account" and ex :: "'a \<Rightarrow> 'b::comm_monoid_add"
  assumes "mset ys = mset xs"
    and "InsufficientFunds \<notin> set (fst (serial a ys))"
    and "exact_along ex a ys"
  shows "ex (Balance (snd (serial a ys))) = ex (Balance a) + sum_list (map ex xs)"
proof -
  from assms(1) have "mset (map ex ys) = mset (map ex xs)" by simp
  then have "sum_list (map ex ys) = sum_list (map ex xs)"
    by (metis sum_mset_sum_list)
  with serial_exact_sum [of a ys "fst (serial a ys)" "snd (serial a ys)" ex] assms(2,3)
  show ?thesis by simp
qed

theorem C4_conservation_witness:
  "mset [Val (- 200), Val 100, Val 300] = mset [Val (- 200), Val 300, Val 100]
   \<and> InsufficientFunds \<notin> set (fst (serial \<lparr>AccountNumber = ''11111'', Balance = Val 1000\<rparr>
        [Val (- 200), Val 100, Val 300]))
   \<and> exact_along (\<lambda>x. case x of Val i \<Rightarrow> i | NaN \<Rightarrow> 0)
        \<lparr>AccountNumber = ''11111'', Balance = Val 1000\<rparr> [Val (- 200), Val 100, Val 300]
   \<and> Balance (snd (serial \<lparr>AccountNumber = ''11111'', Balance = Val 1000\<rparr>
        [Val (- 200), Val 100, Val 300])) = Val 1200"
proof -
  let ?a = "\<lparr>AccountNumber = ''11111'', Balance = Val 1000\<rparr>"
  let ?ys = "[Val (- 200), Val 100, Val 300]"
  have run: "serial ?a ?ys = ([Processed, Processed, Processed],
      \<lparr>AccountNumber = ''11111'', Balance = Val 1200\<rparr>)"
    by (simp add: Account_ProcessTransaction_def zero_fnum_def)
  have p: "mset ?ys = mset [Val (- 200), Val 300, Val 100]" by simp
  have n: "InsufficientFunds \<notin> set (fst (serial ?a ?ys))"
    unfolding run by simp
  have e: "exact_along (\<lambda>x. case x of Val i \<Rightarrow> i | NaN \<Rightarrow> 0) ?a ?ys"
    by (simp add: Account_ProcessTransaction_def zero_fnum_def)
  from C4_conservation [OF p n e] p n e show ?thesis unfolding run by simp
qed

text \<open>
  One order without a rejection does not give the sum in every order. From a balance of 0 the
  order \<open>[100, - 100]\<close> rejects nothing and ends at 0, the sum; the order
  \<open>[- 100, 100]\<close> of the same amounts rejects the debit and ends at 100.
\<close>

theorem C4_counterexample:
  "mset [- 100, 100] = mset [100, - 100 :: int]
   \<and> InsufficientFunds \<notin> set (fst (serial \<lparr>AccountNumber = ''11111'', Balance = 0\<rparr> [100, - 100 :: int]))
   \<and> Balance (snd (serial \<lparr>AccountNumber = ''11111'', Balance = 0\<rparr> [100, - 100 :: int])) = 0 + sum_list [100, - 100]
   \<and> Balance (snd (serial \<lparr>AccountNumber = ''11111'', Balance = 0\<rparr> [- 100, 100 :: int])) = 100
   \<and> Balance (snd (serial \<lparr>AccountNumber = ''11111'', Balance = 0\<rparr> [- 100, 100 :: int]))
       \<noteq> 0 + sum_list [100, - 100]"
  by (simp add: Account_ProcessTransaction_def)

lemma step_not_below:
  fixes a :: "('a::{plus,zero,ord}) Account"
  assumes "\<forall>x y :: 'a. \<not> x < 0 \<longrightarrow> \<not> y < 0 \<longrightarrow> \<not> x + y < 0" and "\<not> Balance a < 0"
  shows "\<not> Balance (snd (Account_ProcessTransaction a amount)) < 0"
  using assms by (auto simp: Account_ProcessTransaction_def)

lemma serial_not_below:
  fixes a :: "('a::{plus,zero,ord}) Account"
  assumes "\<forall>x y :: 'a. \<not> x < 0 \<longrightarrow> \<not> y < 0 \<longrightarrow> \<not> x + y < 0" and "\<not> Balance a < 0"
  shows "\<not> Balance (snd (serial a xs)) < 0"
  using assms(2)
proof (induction xs arbitrary: a)
  case Nil
  then show ?case by simp
next
  case (Cons x xs)
  from step_not_below [OF assms(1) Cons.prems, of x]
  have "\<not> Balance (snd (Account_ProcessTransaction a x)) < 0" .
  from Cons.IH [OF this] show ?case by (auto split: prod.splits)
qed

lemma main_loop_not_below:
  fixes accounts :: "string \<rightharpoonup> ('a::{plus,zero,ord}) Account"
  assumes law: "\<forall>x y :: 'a. \<not> x < 0 \<longrightarrow> \<not> y < 0 \<longrightarrow> \<not> x + y < 0"
    and "\<And>k a. accounts k = Some a \<Longrightarrow> \<not> Balance a < 0"
    and "fst (main_loop accounts ts) k = Some a"
  shows "\<not> Balance a < 0"
  using assms(2,3)
proof (induction ts arbitrary: accounts)
  case Nil
  then show ?case by simp
next
  case (Cons t ts)
  show ?case
  proof (cases "accounts (TxAccountNumber t)")
    case None
    with Cons.prems(2) have "fst (main_loop accounts ts) k = Some a"
      by (simp split: prod.splits)
    from Cons.IH [OF Cons.prems(1) this] show ?thesis by simp
  next
    case (Some b)
    let ?b' = "snd (Account_ProcessTransaction b (Amount t))"
    let ?acc = "accounts(TxAccountNumber t \<mapsto> ?b')"
    from Some Cons.prems(2) have r: "fst (main_loop ?acc ts) k = Some a"
      by (simp split: prod.splits)
    have "\<And>k' a'. ?acc k' = Some a' \<Longrightarrow> \<not> Balance a' < 0"
      using Cons.prems(1) step_not_below [OF law Cons.prems(1) [OF Some], of "Amount t"]
      by (auto split: if_splits)
    from Cons.IH [OF this r] show ?thesis by simp
  qed
qed

lemma mock_account_after:
  "account_after (ProcessTransaction_mock c env nano account transaction s) = account
   \<or> (printed (ProcessTransaction_mock c env nano account transaction s),
       account_after (ProcessTransaction_mock c env nano account transaction s))
       = Account_ProcessTransaction account (Amount transaction)"
  by (auto simp: ProcessTransaction_mock_def Account_ProcessTransaction_def Let_def
      split: prod.splits sum.splits)

lemma redis_account_after:
  "account_after (ProcessTransaction_redis c env account transaction s) = account
   \<or> (printed (ProcessTransaction_redis c env account transaction s),
       account_after (ProcessTransaction_redis c env account transaction s))
       = Account_ProcessTransaction account (Amount transaction)"
  by (auto simp: ProcessTransaction_redis_def Account_ProcessTransaction_def Let_def
      split: prod.splits sum.splits)

text \<open>
  C10, for the balance not going below zero. Take an arithmetic in which the sum of two
  values that are not below zero is not below zero, as it is for \<^verbatim>\<open>float64\<close> and for the
  numbers. From a balance that is not below zero, the critical section leaves a balance that
  is not below zero: an amount that is not negative is always applied and the sum is not
  below zero, a negative amount is applied only when \<open>balance + amount\<close> is not below zero.
  Hence the same holds after any sequence of critical sections of one account, after
  \<^verbatim>\<open>ProcessTransaction\<close> of either lock program on the account its critical section finds,
  whatever the store does, and of every account of the map after \<^verbatim>\<open>main\<close>. Where not being
  below zero is the same as being at least zero, that is, without a NaN, the balance stays
  at least zero.
\<close>

theorem C10_not_below_zero:
  fixes a :: "('a::{plus,zero,ord}) Account"
    and accounts :: "string \<rightharpoonup> 'a Account"
  assumes law: "\<forall>x y :: 'a. \<not> x < 0 \<longrightarrow> \<not> y < 0 \<longrightarrow> \<not> x + y < 0"
    and start: "\<not> Balance a < 0"
  shows
    "(\<not> amount < 0 \<longrightarrow>
        Account_ProcessTransaction a amount = (Processed, a\<lparr>Balance := Balance a + amount\<rparr>)
        \<and> \<not> Balance a + amount < 0)
     \<and> (amount < 0 \<and> fst (Account_ProcessTransaction a amount) = Processed \<longrightarrow>
        \<not> Balance a + amount < 0)
     \<and> \<not> Balance (snd (Account_ProcessTransaction a amount)) < 0
     \<and> \<not> Balance (snd (serial a amounts)) < 0
     \<and> \<not> Balance (account_after (ProcessTransaction_mock c env nano a transaction s)) < 0
     \<and> \<not> Balance (account_after (ProcessTransaction_redis c' env' a transaction' s')) < 0
     \<and> ((\<forall>k b. accounts k = Some b \<longrightarrow> \<not> Balance b < 0) \<longrightarrow>
          (\<forall>k b. fst (main_loop accounts ts) k = Some b \<longrightarrow> \<not> Balance b < 0))
     \<and> ((\<forall>x :: 'a. (\<not> x < 0) = (0 \<le> x)) \<longrightarrow>
          0 \<le> Balance (snd (Account_ProcessTransaction a amount))
          \<and> 0 \<le> Balance (snd (serial a amounts)))"
proof -
  have 1: "\<not> amount < 0 \<longrightarrow>
        Account_ProcessTransaction a amount = (Processed, a\<lparr>Balance := Balance a + amount\<rparr>)
        \<and> \<not> Balance a + amount < 0"
    using law start by (auto simp: Account_ProcessTransaction_def)
  have 2: "amount < 0 \<and> fst (Account_ProcessTransaction a amount) = Processed \<longrightarrow>
        \<not> Balance a + amount < 0"
    by (auto simp: Account_ProcessTransaction_def split: if_splits)
  have 3: "\<not> Balance (snd (Account_ProcessTransaction a amount)) < 0"
    by (rule step_not_below [OF law start])
  have 4: "\<not> Balance (snd (serial a amounts)) < 0"
    by (rule serial_not_below [OF law start])
  have 5: "\<not> Balance (account_after (ProcessTransaction_mock c env nano a transaction s)) < 0"
    using mock_account_after [of c env nano a transaction s]
      step_not_below [OF law start, of "Amount transaction"] start
    by (metis snd_conv)
  have 6: "\<not> Balance (account_after (ProcessTransaction_redis c' env' a transaction' s')) < 0"
    using redis_account_after [of c' env' a transaction' s']
      step_not_below [OF law start, of "Amount transaction'"] start
    by (metis snd_conv)
  have 7: "(\<forall>k b. accounts k = Some b \<longrightarrow> \<not> Balance b < 0) \<longrightarrow>
          (\<forall>k b. fst (main_loop accounts ts) k = Some b \<longrightarrow> \<not> Balance b < 0)"
    using main_loop_not_below [OF law, of accounts ts] by blast
  have 8: "(\<forall>x :: 'a. (\<not> x < 0) = (0 \<le> x)) \<longrightarrow>
          0 \<le> Balance (snd (Account_ProcessTransaction a amount))
          \<and> 0 \<le> Balance (snd (serial a amounts))"
    using 3 4 by blast
  from 1 2 3 4 5 6 7 8 show ?thesis by blast
qed

lemma fnum_law: "\<forall>x y :: fnum. \<not> x < 0 \<longrightarrow> \<not> y < 0 \<longrightarrow> \<not> x + y < 0"
proof (intro allI impI)
  fix x y :: fnum
  assume "\<not> x < 0" and "\<not> y < 0"
  then show "\<not> x + y < 0"
    by (cases x; cases y) (simp_all add: zero_fnum_def)
qed

theorem C10_not_below_zero_witness:
  "\<not> Balance \<lparr>AccountNumber = ''22222'', Balance = Val 2000\<rparr> < 0
   \<and> serial \<lparr>AccountNumber = ''22222'', Balance = Val 2000\<rparr> [Val (- 500), Val (- 3000), NaN]
       = ([Processed, InsufficientFunds, Processed], \<lparr>AccountNumber = ''22222'', Balance = NaN\<rparr>)
   \<and> \<not> Balance (snd (serial \<lparr>AccountNumber = ''22222'', Balance = Val 2000\<rparr>
          [Val (- 500), Val (- 3000), NaN])) < 0"
proof -
  have h: "\<not> Balance \<lparr>AccountNumber = ''22222'', Balance = Val 2000\<rparr> < 0"
    by (simp add: zero_fnum_def)
  have e: "serial \<lparr>AccountNumber = ''22222'', Balance = Val 2000\<rparr> [Val (- 500), Val (- 3000), NaN]
       = ([Processed, InsufficientFunds, Processed], \<lparr>AccountNumber = ''22222'', Balance = NaN\<rparr>)"
    by (simp add: Account_ProcessTransaction_def zero_fnum_def)
  from C10_not_below_zero [OF fnum_law h, where amounts = "[Val (- 500), Val (- 3000), NaN]",
      THEN conjunct2, THEN conjunct2, THEN conjunct2, THEN conjunct1]
  have "\<not> Balance (snd (serial \<lparr>AccountNumber = ''22222'', Balance = Val 2000\<rparr>
          [Val (- 500), Val (- 3000), NaN])) < 0" .
  with h e show ?thesis by simp
qed

text \<open>
  Being at least zero is not kept. An amount NaN is not negative, so the guard lets it pass,
  and the balance 1000 becomes NaN, which is not at least zero.
\<close>

theorem C10_counterexample:
  "0 \<le> Balance \<lparr>AccountNumber = ''11111'', Balance = Val 1000\<rparr>
   \<and> Account_ProcessTransaction \<lparr>AccountNumber = ''11111'', Balance = Val 1000\<rparr> NaN
       = (Processed, \<lparr>AccountNumber = ''11111'', Balance = NaN\<rparr>)
   \<and> \<not> 0 \<le> Balance (snd (Account_ProcessTransaction
        \<lparr>AccountNumber = ''11111'', Balance = Val 1000\<rparr> NaN))"
  by (simp add: Account_ProcessTransaction_def zero_fnum_def)

section \<open>Properties of the lock store\<close>

lemma SetNX_result:
  "MockRedis_SetNX r key v ttl =
     (if data r key = None
      then (Inr True, r\<lparr>data := (data r)(key \<mapsto> v),
                         timers := timers r @ [Spawned ttl key v]\<rparr>)
      else (Inr False, r))"
  by (simp add: MockRedis_SetNX_def)

text \<open>
  C1. \<^verbatim>\<open>MockRedis.SetNX\<close> returns \<^verbatim>\<open>true\<close> exactly when the map has no record for the key,
  and then the map holds the new record; when a record exists it returns \<^verbatim>\<open>false\<close> and
  leaves the store as it was. A second call for the key right after a first returns
  \<^verbatim>\<open>false\<close>, and so does any later call, after any history of the store, that finds the
  record of the first call still there: of two such calls at most one returns \<^verbatim>\<open>true\<close>,
  and of two calls of \<^verbatim>\<open>AcquireLock\<close> for one key, one after the other, likewise.
\<close>

theorem C1_SetNX:
  "(fst (MockRedis_SetNX r key v ttl) = Inr True \<longleftrightarrow> data r key = None)
   \<and> (data r key = None \<longrightarrow>
        data (snd (MockRedis_SetNX r key v ttl)) = (data r)(key \<mapsto> v))
   \<and> (data r key \<noteq> None \<longrightarrow> MockRedis_SetNX r key v ttl = (Inr False, r))
   \<and> fst (MockRedis_SetNX (snd (MockRedis_SetNX r key v ttl)) key v' ttl') = Inr False
   \<and> (fst (MockRedis_SetNX r key v ttl) = Inr True
        \<and> data (apply_ops (snd (MockRedis_SetNX r key v ttl)) ops) key = Some v \<longrightarrow>
        MockRedis_SetNX (apply_ops (snd (MockRedis_SetNX r key v ttl)) ops) key v' ttl'
          = (Inr False, apply_ops (snd (MockRedis_SetNX r key v ttl)) ops))
   \<and> (lock_key lock' = lock_key lock \<longrightarrow>
        \<not> (fst (AcquireLock_mock MockRedis_client lock ttl r) = Inr True
           \<and> fst (AcquireLock_mock MockRedis_client lock' ttl'
                 (snd (AcquireLock_mock MockRedis_client lock ttl r))) = Inr True))"
  by (simp add: SetNX_result AcquireLock_mock_def MockRedis_client_def)

theorem C1_SetNX_witness:
  "fst (MockRedis_SetNX (NewMockRedis 0) ''test-key'' ''test-value'' Second) = Inr True
   \<and> data (snd (MockRedis_SetNX (NewMockRedis 0) ''test-key'' ''test-value'' Second)) ''test-key''
       = Some ''test-value''
   \<and> fst (MockRedis_SetNX
        (apply_ops (snd (MockRedis_SetNX (NewMockRedis 0) ''test-key'' ''test-value'' Second))
           [OpGet ''test-key'', OpElapse Millisecond])
        ''test-key'' ''other-value'' Second) = Inr False"
  using C1_SetNX [where r = "NewMockRedis 0" and key = "''test-key''" and v = "''test-value''"
      and ttl = Second and ops = "[OpGet ''test-key'', OpElapse Millisecond]"
      and v' = "''other-value''" and ttl' = Second]
  by (simp add: NewMockRedis_def MockRedis_SetNX_def MockRedis_Get_def elapse_def Second_def
      Millisecond_def)

lemma ReleaseLock_mock_MockRedis:
  "ReleaseLock_mock MockRedis_client e lock r =
     (case data r (lock_key lock) of
        None \<Rightarrow> (Some LockNotFound, r)
      | Some tok \<Rightarrow>
          if tok = lock_value lock then
            (None, if data (e r) (lock_key lock) = None then e r
                   else (e r)\<lparr>data := (data (e r))(lock_key lock := None)\<rparr>)
          else (None, r))"
  by (simp add: ReleaseLock_mock_def MockRedis_client_def MockRedis_Get_def MockRedis_Del_def
      split: option.splits)

lemmas store_eval =
  AcquireLock_def AcquireLock_mock_def ReleaseLock_def ReleaseLock_mock_def MockRedis_client_def
  MockRedis_SetNX_def MockRedis_Get_def MockRedis_Del_def NewMockRedis_def run_sleeper_def
  elapse_def reap_def NewLock_redis_def NewLock_mock_def Sprintf_d_def show_nat.simps
  Second_def Millisecond_def

text \<open>
  What \<^verbatim>\<open>ReleaseLock\<close> does with the token it reads: one that is the caller's leads to
  \<^verbatim>\<open>Del\<close>, any other to \<^verbatim>\<open>nil\<close> with no call of \<^verbatim>\<open>Del\<close> and the store as it was.
\<close>

lemma ReleaseLock_by_token:
  "(data r (lock_key lock) = Some tok \<and> tok = lock_value lock \<longrightarrow>
      fst (ReleaseLock_mock MockRedis_client e lock r) = None
      \<and> data (snd (ReleaseLock_mock MockRedis_client e lock r)) = (data (e r))(lock_key lock := None))
   \<and> (data r (lock_key lock) = Some tok \<and> tok \<noteq> lock_value lock \<longrightarrow>
      ReleaseLock_mock MockRedis_client e lock r = (None, r))
   \<and> (Get c s (lock_key lock) = (Inr tok, s') \<and> tok = lock_value lock \<longrightarrow>
      ReleaseLock c e' lock s =
        (case Del c (e' s') (lock_key lock) of
           (Inl err, s'') \<Rightarrow> (Some (ClientError err), s'') | (Inr n, s'') \<Rightarrow> (None, s'')))
   \<and> (Get c s (lock_key lock) = (Inr tok, s') \<and> tok \<noteq> lock_value lock \<longrightarrow>
      ReleaseLock c e' lock s = (None, s'))"
  by (auto simp: ReleaseLock_mock_MockRedis ReleaseLock_def MockRedis_Get_def)

text \<open>
  C2. \<^verbatim>\<open>ReleaseLock\<close> compares the token it reads, as above, but a former holder can still
  evict the record of a newer one. Two runs on \<^verbatim>\<open>MockRedis\<close>, each with a holder \<open>A\<close> that
  is still in its critical section when its TTL of five seconds is over.

  In the first, of the mock program, the tokens of \<open>A\<close> and \<open>B\<close> differ. \<open>A\<close> calls
  \<^verbatim>\<open>ReleaseLock\<close> and its \<^verbatim>\<open>Get\<close> reads its own token, the goroutine of its acquisition not
  having run yet. Before its \<^verbatim>\<open>Del\<close>, that goroutine runs and deletes the record, and \<open>B\<close>
  acquires the key. The \<^verbatim>\<open>Del\<close> of \<open>A\<close> then removes the record of \<open>B\<close>: the read and the
  delete are two calls of the store.

  In the second, of \<^verbatim>\<open>distributed/redis\<close>, the record of \<open>A\<close> has expired and \<open>B\<close> has
  acquired the key when \<open>A\<close> calls \<^verbatim>\<open>ReleaseLock\<close>. The token \<open>A\<close> reads is that of \<open>B\<close>,
  and it is equal to its own, the constant \<^verbatim>\<open>unique-identifier\<close>; \<open>A\<close> deletes the record
  of \<open>B\<close>.
\<close>

theorem C2_stale_holder_evicts:
  "(let a = \<lparr>AccountNumber = ''11111'', Balance = 1000 :: int\<rparr>;
        lockA = NewLock_mock 1 a;
        lockB = NewLock_mock 2 a;
        held = apply_ops
                 (snd (AcquireLock_mock MockRedis_client lockA (5 * Second) (NewMockRedis 0)))
                 [OpRun 0, OpElapse (5 * Second)];
        others = (\<lambda>r. snd (AcquireLock_mock MockRedis_client lockB (5 * Second)
                              (run_sleeper 0 r)));
        released = ReleaseLock_mock MockRedis_client others lockA held
    in lock_value lockA \<noteq> lock_value lockB
       \<and> fst (MockRedis_Get held (lock_key lockA)) = Inr (lock_value lockA)
       \<and> fst (MockRedis_Get (others held) (lock_key lockA)) = Inr (lock_value lockB)
       \<and> fst released = None
       \<and> fst (MockRedis_Get (snd released) (lock_key lockA)) = Inl KeyNotFound)
   \<and> (let lockA = NewLock_redis \<lparr>AccountNumber = ''11111'', Balance = 1000 :: int\<rparr>;
          lockB = NewLock_redis \<lparr>AccountNumber = ''11111'', Balance = 800 :: int\<rparr>;
          expired = apply_ops
                      (snd (AcquireLock MockRedis_client lockA (5 * Second) (NewMockRedis 0)))
                      [OpRun 0, OpElapse (6 * Second), OpRun 0];
          heldB = snd (AcquireLock MockRedis_client lockB (5 * Second) expired);
          released = ReleaseLock MockRedis_client (\<lambda>r. r) lockA heldB
      in fst (MockRedis_Get expired (lock_key lockA)) = Inl KeyNotFound
         \<and> fst (AcquireLock MockRedis_client lockB (5 * Second) expired) = Inr True
         \<and> fst (MockRedis_Get heldB (lock_key lockA)) = Inr (lock_value lockB)
         \<and> fst released = None
         \<and> fst (MockRedis_Get (snd released) (lock_key lockA)) = Inl KeyNotFound)"
  by (simp add: store_eval Let_def)

text \<open>
  C6. On \<^verbatim>\<open>MockRedis\<close>, \<^verbatim>\<open>ReleaseLock\<close> of the mock program returns \<^verbatim>\<open>lock not found\<close>
  exactly when the map has no record for the key; after a release that found the caller's
  record and deleted it, a second release returns \<^verbatim>\<open>lock not found\<close>. \<^verbatim>\<open>MockRedis\<close> has no
  other failure. \<^verbatim>\<open>ReleaseLock\<close> of \<^verbatim>\<open>distributed/redis\<close>, on any client, returns
  \<^verbatim>\<open>lock not found\<close> exactly when \<^verbatim>\<open>Get\<close> answers \<^verbatim>\<open>redis.Nil\<close>; any other error of
  \<^verbatim>\<open>Get\<close>, and any error of \<^verbatim>\<open>Del\<close>, is returned as it is, which is not
  \<^verbatim>\<open>lock not found\<close>.
\<close>

theorem C6_release_errors:
  "(fst (ReleaseLock_mock MockRedis_client e lock r) = Some LockNotFound
      \<longleftrightarrow> data r (lock_key lock) = None)
   \<and> (data r (lock_key lock) = Some (lock_value lock) \<longrightarrow>
        fst (ReleaseLock_mock MockRedis_client e lock r) = None
        \<and> fst (ReleaseLock_mock MockRedis_client f lock
                 (snd (ReleaseLock_mock MockRedis_client e lock r))) = Some LockNotFound)
   \<and> (fst (ReleaseLock c e' lock s) = Some LockNotFound
        \<longleftrightarrow> fst (Get c s (lock_key lock)) = Inl RedisNil)
   \<and> (Get c s (lock_key lock) = (Inl err, s') \<and> err \<noteq> RedisNil \<longrightarrow>
        ReleaseLock c e' lock s = (Some (ClientError err), s'))
   \<and> (Get c s (lock_key lock) = (Inr (lock_value lock), s')
        \<and> Del c (e' s') (lock_key lock) = (Inl err, s'') \<longrightarrow>
        ReleaseLock c e' lock s = (Some (ClientError err), s''))"
  by (auto simp: ReleaseLock_mock_MockRedis ReleaseLock_def
      split: option.splits prod.splits sum.splits)

theorem C6_release_errors_witness:
  "fst (ReleaseLock_mock MockRedis_client (\<lambda>r. r) \<lparr>lock_key = ''k'', lock_value = ''tok''\<rparr>
         \<lparr>data = [''k'' \<mapsto> ''tok''], timers = [], clock = 0\<rparr>) = None
   \<and> fst (ReleaseLock_mock MockRedis_client (\<lambda>r. r) \<lparr>lock_key = ''k'', lock_value = ''tok''\<rparr>
         (snd (ReleaseLock_mock MockRedis_client (\<lambda>r. r)
            \<lparr>lock_key = ''k'', lock_value = ''tok''\<rparr>
            \<lparr>data = [''k'' \<mapsto> ''tok''], timers = [], clock = 0\<rparr>))) = Some LockNotFound
   \<and> ReleaseLock \<lparr>SetNX = \<lambda>s k v t. (Inl (StoreFailure ''down''), s),
                    Get = \<lambda>s k. (Inl (StoreFailure ''down''), s),
                    Del = \<lambda>s k. (Inl (StoreFailure ''down''), s)\<rparr>
         (\<lambda>s. s) \<lparr>lock_key = ''k'', lock_value = ''tok''\<rparr> ()
       = (Some (ClientError (StoreFailure ''down'')), ())"
  using C6_release_errors [where r = "\<lparr>data = [''k'' \<mapsto> ''tok''], timers = [], clock = 0\<rparr>"
      and lock = "\<lparr>lock_key = ''k'', lock_value = ''tok''\<rparr>"
      and e = "\<lambda>r. r" and f = "\<lambda>r. r" and e' = "\<lambda>s. s"
      and c = "\<lparr>SetNX = \<lambda>s k v t. (Inl (StoreFailure ''down''), s),
                Get = \<lambda>s k. (Inl (StoreFailure ''down''), s),
                Del = \<lambda>s k. (Inl (StoreFailure ''down''), s)\<rparr>"
      and s = "()" and s' = "()" and err = "StoreFailure ''down''"]
  by simp

subsection \<open>Expiry\<close>

lemma reap_fields [simp]: "timers (reap r k v) = timers r" "clock (reap r k v) = clock r"
  by (simp_all add: reap_def)

lemma reap_data: "data (reap r k v) key = None \<or> data (reap r k v) key = data r key"
  by (simp add: reap_def)

lemma reap_hit: "data r k = None \<or> data r k = Some v \<Longrightarrow> data (reap r k v) k = None"
  by (auto simp: reap_def)

lemma reap_miss: "data r key = Some v \<Longrightarrow> \<not> (k = key \<and> u = v) \<Longrightarrow> data (reap r k u) key = Some v"
  by (auto simp: reap_def)

lemma run_sleeper_length [simp]: "length (timers (run_sleeper m r)) = length (timers r)"
  by (simp add: run_sleeper_def split: sleeper.splits)

lemma run_sleeper_clock [simp]: "clock (run_sleeper m r) = clock r"
  by (simp add: run_sleeper_def split: sleeper.splits)

lemma run_sleeper_data:
  "data (run_sleeper m r) key = None \<or> data (run_sleeper m r) key = data r key"
  using reap_data by (simp add: run_sleeper_def split: sleeper.splits)

lemma run_sleeper_other:
  "m \<noteq> n \<Longrightarrow> timers (run_sleeper m r) ! n = timers r ! n"
  by (simp add: run_sleeper_def split: sleeper.splits)

lemma apply_op_length: "length (timers r) \<le> length (timers (apply_op r x))"
  by (cases x) (simp_all add: MockRedis_SetNX_def MockRedis_Get_def MockRedis_Del_def elapse_def
      split: option.splits)

lemma clock_apply_op: "clock (apply_op r x) = clock r + elapsed [x]"
  by (cases x) (simp_all add: MockRedis_SetNX_def MockRedis_Get_def MockRedis_Del_def elapse_def
      split: option.splits)

lemma elapsed_Cons: "elapsed (x # xs) = elapsed [x] + elapsed xs"
  by (cases x) simp_all

lemma elapsed_nonneg: "0 \<le> elapsed xs"
  by (induction xs rule: elapsed.induct) simp_all

lemma clock_apply_ops: "clock (apply_ops r xs) = clock r + elapsed xs"
proof (induction xs arbitrary: r)
  case Nil
  then show ?case by simp
next
  case (Cons x xs)
  then show ?case using elapsed_Cons [of x xs] by (simp add: clock_apply_op)
qed

text \<open>The state of the goroutine n of an acquisition of k with value v and TTL ttl made at time t0.\<close>

lemma Get_state [simp]: "snd (MockRedis_Get r k) = r"
  by (simp add: MockRedis_Get_def split: option.splits)

lemma Del_fields [simp]:
  "timers (snd (MockRedis_Del r k)) = timers r"
  "clock (snd (MockRedis_Del r k)) = clock r"
  "data (snd (MockRedis_Del r k)) = (data r)(k := None)"
  by (auto simp: MockRedis_Del_def split: option.splits)

lemma tracked_step:
  assumes inv: "tracked n k v ttl t0 r" and no: "\<not> reacquired k r [x]"
  shows "tracked n k v ttl t0 (apply_op r x)"
proof (cases x)
  case (OpSetNX k' v' ttl')
  with inv no show ?thesis
    by (auto simp: tracked_def MockRedis_SetNX_def nth_append)
next
  case (OpGet k')
  with inv show ?thesis by simp
next
  case (OpDel k')
  with inv show ?thesis by (auto simp: tracked_def)
next
  case (OpElapse d)
  with inv show ?thesis by (auto simp: tracked_def elapse_def)
next
  case (OpRun m)
  show ?thesis
  proof (cases "m = n")
    case True
    from inv have n: "n < length (timers r)" and t: "t0 \<le> clock r" by (simp_all add: tracked_def)
    show ?thesis
    proof (cases "timers r ! n")
      case (Spawned ttl' k' v')
      with inv have "run_sleeper n r = r\<lparr>timers := (timers r)[n := Asleep (clock r + max 0 ttl) k v]\<rparr>"
        by (auto simp: tracked_def run_sleeper_def)
      with inv Spawned OpRun True n t show ?thesis by (auto simp: tracked_def)
    next
      case (Asleep w k' v')
      with inv have a: "timers r ! n = Asleep w k v" and w: "t0 + max 0 ttl \<le> w"
        and d: "data r k = None \<or> data r k = Some v"
        by (auto simp: tracked_def)
      show ?thesis
      proof (cases "w \<le> clock r")
        case True
        with a n have "run_sleeper n r = (reap r k v)\<lparr>timers := (timers r)[n := Finished]\<rparr>"
          by (simp add: run_sleeper_def)
        with reap_hit [OF d] w True n t OpRun \<open>m = n\<close> show ?thesis
          by (simp add: tracked_def)
      next
        case False
        with a n have "run_sleeper n r = r" by (simp add: run_sleeper_def)
        with inv OpRun \<open>m = n\<close> show ?thesis by simp
      qed
    next
      case Finished
      with n have "run_sleeper n r = r" by (simp add: run_sleeper_def)
      with inv OpRun True show ?thesis by simp
    qed
  next
    case False
    from False have same: "timers (run_sleeper m r) ! n = timers r ! n"
      by (rule run_sleeper_other)
    from run_sleeper_data [of m r k] inv same OpRun show ?thesis
      by (auto simp: tracked_def)
  qed
qed

lemma tracked_steps:
  assumes "tracked n k v ttl t0 r" and "\<not> reacquired k r xs"
  shows "tracked n k v ttl t0 (apply_ops r xs)"
  using assms
proof (induction xs arbitrary: r)
  case Nil
  then show ?case by simp
next
  case (Cons x xs)
  from Cons.prems(2) have n1: "\<not> reacquired k r [x]" and n2: "\<not> reacquired k (apply_op r x) xs"
    by auto
  from Cons.IH [OF tracked_step [OF Cons.prems(1) n1] n2] show ?case by simp
qed

lemma tracked_SetNX:
  assumes "data r k = None"
  shows "tracked (length (timers r)) k v ttl (clock r) (snd (MockRedis_SetNX r k v ttl))"
  using assms by (simp add: tracked_def MockRedis_SetNX_def)

lemma run_sleeper_aims:
  assumes "j < length (timers r)" and "\<not> aims_at k v (timers r ! j)"
  shows "\<not> aims_at k v (timers (run_sleeper m r) ! j)"
proof (cases "m = j")
  case False
  with assms show ?thesis by (simp add: run_sleeper_other)
next
  case True
  with assms show ?thesis
    by (cases "timers r ! j") (auto simp: run_sleeper_def)
qed

lemma run_sleeper_miss:
  assumes "m < length (timers r)" and "\<not> aims_at k v (timers r ! m)" and "data r k = Some v"
  shows "data (run_sleeper m r) k = Some v"
  using assms
  by (cases "timers r ! m") (auto simp: run_sleeper_def reap_miss)

lemma kept_step:
  assumes inv: "kept n k v ttl t0 r" and nd: "x \<noteq> OpDel k"
    and early: "clock (apply_op r x) < t0 + max 0 ttl"
  shows "kept n k v ttl t0 (apply_op r x)"
proof (cases x)
  case (OpSetNX k' v' ttl')
  show ?thesis
  proof (cases "k' = k")
    case True
    with inv OpSetNX show ?thesis by (simp add: kept_def MockRedis_SetNX_def)
  next
    case False
    with inv OpSetNX show ?thesis
      by (auto simp: kept_def MockRedis_SetNX_def nth_append less_Suc_eq)
  qed
next
  case (OpGet k')
  with inv show ?thesis by simp
next
  case (OpDel k')
  with inv nd show ?thesis by (auto simp: kept_def)
next
  case (OpElapse d)
  with inv show ?thesis by (auto simp: kept_def elapse_def)
next
  case (OpRun m)
  from inv have n: "n < length (timers r)" and t: "t0 \<le> clock r" and d: "data r k = Some v"
    and others: "\<And>j. j < length (timers r) \<Longrightarrow> j \<noteq> n \<Longrightarrow> \<not> aims_at k v (timers r ! j)"
    by (simp_all add: kept_def)
  from early OpRun have cl: "clock r < t0 + max 0 ttl" by simp
  show ?thesis
  proof (cases "m = n")
    case True
    from inv have "timers r ! n = Spawned ttl k v
        \<or> (\<exists>w. timers r ! n = Asleep w k v \<and> t0 + max 0 ttl \<le> w)"
      by (simp add: kept_def)
    then show ?thesis
    proof
      assume sp: "timers r ! n = Spawned ttl k v"
      with n have "run_sleeper n r = r\<lparr>timers := (timers r)[n := Asleep (clock r + max 0 ttl) k v]\<rparr>"
        by (simp add: run_sleeper_def)
      with inv OpRun True n t show ?thesis by (auto simp: kept_def)
    next
      assume "\<exists>w. timers r ! n = Asleep w k v \<and> t0 + max 0 ttl \<le> w"
      then obtain w where a: "timers r ! n = Asleep w k v" and w: "t0 + max 0 ttl \<le> w" by blast
      with cl n have "run_sleeper n r = r" by (simp add: run_sleeper_def)
      with inv OpRun True show ?thesis by simp
    qed
  next
    case False
    have same: "timers (run_sleeper m r) ! n = timers r ! n"
      using False by (rule run_sleeper_other)
    have dat: "data (run_sleeper m r) k = Some v"
    proof (cases "m < length (timers r)")
      case True
      from run_sleeper_miss [OF True others [OF True False] d] show ?thesis .
    next
      case False
      with d show ?thesis by (simp add: run_sleeper_def)
    qed
    have oth: "\<And>j. j < length (timers r) \<Longrightarrow> j \<noteq> n
        \<Longrightarrow> \<not> aims_at k v (timers (run_sleeper m r) ! j)"
      using run_sleeper_aims others by blast
    from inv same dat oth OpRun show ?thesis by (simp add: kept_def)
  qed
qed

lemma kept_steps:
  assumes "kept n k v ttl t0 r" and "OpDel k \<notin> set xs" and "clock r + elapsed xs < t0 + max 0 ttl"
  shows "kept n k v ttl t0 (apply_ops r xs)"
  using assms
proof (induction xs arbitrary: r)
  case Nil
  then show ?case by simp
next
  case (Cons x xs)
  from Cons.prems(3) elapsed_Cons [of x xs] elapsed_nonneg [of xs]
  have e1: "clock (apply_op r x) < t0 + max 0 ttl"
    and e2: "clock (apply_op r x) + elapsed xs < t0 + max 0 ttl"
    by (simp_all add: clock_apply_op)
  from Cons.prems(2) have nd: "x \<noteq> OpDel k" and nds: "OpDel k \<notin> set xs" by auto
  from Cons.IH [OF kept_step [OF Cons.prems(1) nd e1] nds e2] show ?case by simp
qed

lemma kept_SetNX:
  assumes "data r k = None" and "\<forall>s \<in> set (timers r). \<not> aims_at k v s"
  shows "kept (length (timers r)) k v ttl (clock r) (snd (MockRedis_SetNX r k v ttl))"
  using assms by (auto simp: kept_def MockRedis_SetNX_def nth_append)

lemma due_step:
  assumes "n < length (timers r)"
    and "timers r ! n = Spawned ttl k v
         \<or> (\<exists>w. timers r ! n = Asleep w k v \<and> w \<le> clock r + max 0 ttl)
         \<or> timers r ! n = Finished"
  shows "timers (apply_op r x) ! n = Spawned ttl k v
         \<or> (\<exists>w. timers (apply_op r x) ! n = Asleep w k v \<and> w \<le> clock (apply_op r x) + max 0 ttl)
         \<or> timers (apply_op r x) ! n = Finished"
proof (cases x)
  case (OpSetNX key u t)
  with assms show ?thesis by (auto simp: MockRedis_SetNX_def nth_append)
next
  case (OpGet key)
  with assms show ?thesis by simp
next
  case (OpDel key)
  with assms show ?thesis by simp
next
  case (OpElapse d)
  with assms show ?thesis by (auto simp: elapse_def)
next
  case (OpRun m)
  show ?thesis
  proof (cases "m = n")
    case False
    with assms OpRun show ?thesis by (simp add: run_sleeper_other)
  next
    case True
    with assms OpRun show ?thesis
      by (auto simp: run_sleeper_def split: sleeper.splits)
  qed
qed

lemma due_steps:
  assumes "n < length (timers r)"
    and "timers r ! n = Spawned ttl k v
         \<or> (\<exists>w. timers r ! n = Asleep w k v \<and> w \<le> clock r + max 0 ttl)
         \<or> timers r ! n = Finished"
  shows "timers (apply_ops r xs) ! n = Spawned ttl k v
         \<or> (\<exists>w. timers (apply_ops r xs) ! n = Asleep w k v \<and> w \<le> clock (apply_ops r xs) + max 0 ttl)
         \<or> timers (apply_ops r xs) ! n = Finished"
  using assms
proof (induction xs arbitrary: r)
  case Nil
  then show ?case by simp
next
  case (Cons x xs)
  from Cons.prems(1) apply_op_length [of r x] have l: "n < length (timers (apply_op r x))" by simp
  from Cons.IH [OF l due_step [OF Cons.prems]] show ?case by simp
qed

lemma apply_ops_length: "length (timers r) \<le> length (timers (apply_ops r xs))"
proof (induction xs arbitrary: r)
  case Nil
  then show ?case by simp
next
  case (Cons x xs)
  from apply_op_length [of r x] Cons.IH [of "apply_op r x"] show ?case by simp
qed

lemma apply_ops_append: "apply_ops r (xs @ ys) = apply_ops (apply_ops r xs) ys"
  by (induction xs arbitrary: r) simp_all

lemma reacquired_append:
  "reacquired key r (xs @ ys) = (reacquired key r xs \<or> reacquired key (apply_ops r xs) ys)"
  by (induction xs arbitrary: r) simp_all

lemma due_finishes:
  assumes "n < length (timers r)"
    and "timers r ! n = Spawned ttl k v
         \<or> (\<exists>w. timers r ! n = Asleep w k v \<and> w \<le> clock r + max 0 ttl)
         \<or> timers r ! n = Finished"
  shows "timers (apply_ops r [OpRun n, OpElapse ttl, OpRun n]) ! n = Finished"
  using assms by (auto simp: run_sleeper_def elapse_def split: sleeper.splits)

text \<open>
  C8, for the goroutine having run. Let an acquire with TTL \<open>ttl\<close> succeed on
  \<^verbatim>\<open>MockRedis\<close>, and let any history of the store follow in which no \<^verbatim>\<open>SetNX\<close> acquires the
  key again. The record is readable at once. When the goroutine the acquire created has run
  its check and delete, at least the TTL has passed since the acquire, \<^verbatim>\<open>Get\<close> of the key
  answers not found and a fresh acquire of the key succeeds, whether or not the record was
  deleted before. While less than the TTL has passed, the record is still readable, if
  nobody has deleted the key and no goroutine of an earlier acquisition compares the key with
  the same value. And after any such history the goroutine can run: once the scheduler has
  run it, a time of the TTL has passed and the scheduler has run it again, it has done its
  check and delete and \<^verbatim>\<open>Get\<close> of the key answers not found.
\<close>

theorem C8_expiry:
  assumes acq: "fst (AcquireLock_mock MockRedis_client lock ttl r) = Inr True"
    and no: "\<not> reacquired (lock_key lock) (snd (AcquireLock_mock MockRedis_client lock ttl r)) ops"
    and same: "lock_key lock' = lock_key lock"
  shows
    "fst (MockRedis_Get (snd (AcquireLock_mock MockRedis_client lock ttl r)) (lock_key lock))
       = Inr (lock_value lock)
     \<and> (timers (apply_ops (snd (AcquireLock_mock MockRedis_client lock ttl r)) ops)
           ! length (timers r) = Finished \<longrightarrow>
          max 0 ttl \<le> elapsed ops
          \<and> fst (MockRedis_Get
                (apply_ops (snd (AcquireLock_mock MockRedis_client lock ttl r)) ops)
                (lock_key lock)) = Inl KeyNotFound
          \<and> fst (AcquireLock_mock MockRedis_client lock' ttl'
                (apply_ops (snd (AcquireLock_mock MockRedis_client lock ttl r)) ops)) = Inr True)
     \<and> ((\<forall>s \<in> set (timers r). \<not> aims_at (lock_key lock) (lock_value lock) s)
          \<and> OpDel (lock_key lock) \<notin> set ops \<and> elapsed ops < max 0 ttl \<longrightarrow>
          fst (MockRedis_Get
                (apply_ops (snd (AcquireLock_mock MockRedis_client lock ttl r)) ops)
                (lock_key lock)) = Inr (lock_value lock))
     \<and> timers (apply_ops (snd (AcquireLock_mock MockRedis_client lock ttl r))
           (ops @ [OpRun (length (timers r)), OpElapse ttl, OpRun (length (timers r))]))
         ! length (timers r) = Finished
     \<and> fst (MockRedis_Get
           (apply_ops (snd (AcquireLock_mock MockRedis_client lock ttl r))
              (ops @ [OpRun (length (timers r)), OpElapse ttl, OpRun (length (timers r))]))
           (lock_key lock)) = Inl KeyNotFound"
proof -
  let ?k = "lock_key lock" and ?v = "lock_value lock"
  let ?r1 = "snd (MockRedis_SetNX r ?k ?v ttl)"
  have eq: "AcquireLock_mock MockRedis_client lock ttl r = MockRedis_SetNX r ?k ?v ttl"
    by (simp add: AcquireLock_mock_def MockRedis_client_def)
  from acq have free: "data r ?k = None"
    by (auto simp: eq MockRedis_SetNX_def split: if_splits)
  have 1: "fst (MockRedis_Get ?r1 ?k) = Inr ?v"
    using free by (simp add: MockRedis_SetNX_def MockRedis_Get_def)
  from tracked_steps [OF tracked_SetNX [OF free, of ?v ttl]] no
  have tr: "tracked (length (timers r)) ?k ?v ttl (clock r) (apply_ops ?r1 ops)"
    by (simp add: eq)
  have cl: "clock (apply_ops ?r1 ops) = clock r + elapsed ops"
    using free by (simp add: clock_apply_ops MockRedis_SetNX_def)
  have 2: "timers (apply_ops ?r1 ops) ! length (timers r) = Finished \<longrightarrow>
          max 0 ttl \<le> elapsed ops
          \<and> fst (MockRedis_Get (apply_ops ?r1 ops) ?k) = Inl KeyNotFound
          \<and> fst (AcquireLock_mock MockRedis_client lock' ttl' (apply_ops ?r1 ops)) = Inr True"
    using tr cl same
    by (auto simp: tracked_def MockRedis_Get_def AcquireLock_mock_def MockRedis_client_def
        MockRedis_SetNX_def)
  have 3: "(\<forall>s \<in> set (timers r). \<not> aims_at ?k ?v s)
          \<and> OpDel ?k \<notin> set ops \<and> elapsed ops < max 0 ttl \<longrightarrow>
          fst (MockRedis_Get (apply_ops ?r1 ops) ?k) = Inr ?v"
  proof (intro impI, elim conjE)
    assume fresh: "\<forall>s \<in> set (timers r). \<not> aims_at ?k ?v s"
      and nd: "OpDel ?k \<notin> set ops" and early: "elapsed ops < max 0 ttl"
    have "clock ?r1 + elapsed ops < clock r + max 0 ttl"
      using free early by (simp add: MockRedis_SetNX_def)
    from kept_steps [OF kept_SetNX [OF free fresh, of ttl] nd this]
    show "fst (MockRedis_Get (apply_ops ?r1 ops) ?k) = Inr ?v"
      by (simp add: kept_def MockRedis_Get_def)
  qed
  let ?n = "length (timers r)"
  let ?run = "[OpRun ?n, OpElapse ttl, OpRun ?n]"
  have n1: "?n < length (timers ?r1)" and s1: "timers ?r1 ! ?n = Spawned ttl ?k ?v"
    using free by (simp_all add: MockRedis_SetNX_def)
  from n1 apply_ops_length [of ?r1 ops] have n2: "?n < length (timers (apply_ops ?r1 ops))"
    by simp
  from s1 have "timers ?r1 ! ?n = Spawned ttl ?k ?v
         \<or> (\<exists>w. timers ?r1 ! ?n = Asleep w ?k ?v \<and> w \<le> clock ?r1 + max 0 ttl)
         \<or> timers ?r1 ! ?n = Finished" by simp
  from due_finishes [OF n2 due_steps [OF n1 this, of ops]]
  have 4: "timers (apply_ops ?r1 (ops @ ?run)) ! ?n = Finished"
    by (simp only: apply_ops_append)
  from no have "\<not> reacquired ?k ?r1 (ops @ ?run)"
    by (simp add: eq reacquired_append)
  from tracked_steps [OF tracked_SetNX [OF free, of ?v ttl] this]
  have "tracked ?n ?k ?v ttl (clock r) (apply_ops ?r1 (ops @ ?run))" .
  with 4 have 5: "fst (MockRedis_Get (apply_ops ?r1 (ops @ ?run)) ?k) = Inl KeyNotFound"
    by (simp add: tracked_def MockRedis_Get_def)
  from 1 2 3 4 5 show ?thesis by (simp only: eq)
qed

theorem C8_expiry_witness:
  "fst (AcquireLock_mock MockRedis_client \<lparr>lock_key = ''test-key'', lock_value = ''test-value''\<rparr>
         (100 * Millisecond) (NewMockRedis 0)) = Inr True
   \<and> timers (apply_ops
        (snd (AcquireLock_mock MockRedis_client
                \<lparr>lock_key = ''test-key'', lock_value = ''test-value''\<rparr>
                (100 * Millisecond) (NewMockRedis 0)))
        [OpRun 0, OpElapse (150 * Millisecond), OpRun 0]) ! 0 = Finished
   \<and> fst (MockRedis_Get
        (apply_ops
           (snd (AcquireLock_mock MockRedis_client
                   \<lparr>lock_key = ''test-key'', lock_value = ''test-value''\<rparr>
                   (100 * Millisecond) (NewMockRedis 0)))
           [OpRun 0, OpElapse (150 * Millisecond), OpRun 0])
        ''test-key'') = Inl KeyNotFound
   \<and> fst (AcquireLock_mock MockRedis_client \<lparr>lock_key = ''test-key'', lock_value = ''fresh''\<rparr>
        Second
        (apply_ops
           (snd (AcquireLock_mock MockRedis_client
                   \<lparr>lock_key = ''test-key'', lock_value = ''test-value''\<rparr>
                   (100 * Millisecond) (NewMockRedis 0)))
           [OpRun 0, OpElapse (150 * Millisecond), OpRun 0])) = Inr True
   \<and> fst (MockRedis_Get
        (apply_ops
           (snd (AcquireLock_mock MockRedis_client
                   \<lparr>lock_key = ''test-key'', lock_value = ''test-value''\<rparr>
                   (100 * Millisecond) (NewMockRedis 0)))
           [OpRun 0, OpElapse (50 * Millisecond), OpRun 0])
        ''test-key'') = Inr ''test-value''"
proof -
  define lock where "lock = \<lparr>lock_key = ''test-key'', lock_value = ''test-value''\<rparr>"
  define r1 where
    "r1 = snd (AcquireLock_mock MockRedis_client lock (100 * Millisecond) (NewMockRedis 0))"
  have r1: "r1 = \<lparr>data = [''test-key'' \<mapsto> ''test-value''],
      timers = [Spawned (100 * Millisecond) ''test-key'' ''test-value''], clock = 0\<rparr>"
    by (simp add: r1_def lock_def AcquireLock_mock_def MockRedis_client_def MockRedis_SetNX_def
        NewMockRedis_def)
  have a: "fst (AcquireLock_mock MockRedis_client lock (100 * Millisecond) (NewMockRedis 0)) = Inr True"
    by (simp add: lock_def AcquireLock_mock_def MockRedis_client_def MockRedis_SetNX_def
        NewMockRedis_def)
  have b: "\<not> reacquired (lock_key lock) r1 [OpRun 0, OpElapse (150 * Millisecond), OpRun 0]"
    by simp
  have b': "\<not> reacquired (lock_key lock) r1 [OpRun 0, OpElapse (50 * Millisecond), OpRun 0]"
    by simp
  have c: "lock_key \<lparr>lock_key = ''test-key'', lock_value = ''fresh''\<rparr> = lock_key lock"
    by (simp add: lock_def)
  have fin: "timers (apply_ops r1 [OpRun 0, OpElapse (150 * Millisecond), OpRun 0])
      ! length (timers (NewMockRedis 0)) = Finished"
    by (simp add: r1 run_sleeper_def elapse_def reap_def NewMockRedis_def Millisecond_def)
  have fresh: "\<forall>s \<in> set (timers (NewMockRedis 0)). \<not> aims_at (lock_key lock) (lock_value lock) s"
    by (simp add: NewMockRedis_def)
  have nd: "OpDel (lock_key lock) \<notin> set [OpRun 0, OpElapse (50 * Millisecond), OpRun 0]"
    by simp
  have early: "elapsed [OpRun 0, OpElapse (50 * Millisecond), OpRun 0] < max 0 (100 * Millisecond)"
    by (simp add: Millisecond_def)
  from C8_expiry [OF a b [unfolded r1_def] c, of Second] fin [unfolded r1_def]
  have late: "fst (MockRedis_Get (apply_ops r1 [OpRun 0, OpElapse (150 * Millisecond), OpRun 0])
        (lock_key lock)) = Inl KeyNotFound
      \<and> fst (AcquireLock_mock MockRedis_client \<lparr>lock_key = ''test-key'', lock_value = ''fresh''\<rparr>
          Second (apply_ops r1 [OpRun 0, OpElapse (150 * Millisecond), OpRun 0])) = Inr True"
    unfolding r1_def by blast
  from C8_expiry [OF a b' [unfolded r1_def] c, of Second] fresh nd early
  have before: "fst (MockRedis_Get (apply_ops r1 [OpRun 0, OpElapse (50 * Millisecond), OpRun 0])
        (lock_key lock)) = Inr (lock_value lock)"
    unfolding r1_def by blast
  from a late before fin show ?thesis
    unfolding r1_def lock_def by (simp add: NewMockRedis_def)
qed

text \<open>
  Time alone does not remove the record. After an acquire with a TTL of 100 ms the goroutine
  starts its sleep, and 150 ms pass in which the scheduler does not run it again: the record
  is still read, and a fresh acquire fails.
\<close>

theorem C8_counterexample:
  "fst (AcquireLock_mock MockRedis_client \<lparr>lock_key = ''test-key'', lock_value = ''test-value''\<rparr>
         (100 * Millisecond) (NewMockRedis 0)) = Inr True
   \<and> \<not> reacquired ''test-key''
        (snd (AcquireLock_mock MockRedis_client
                \<lparr>lock_key = ''test-key'', lock_value = ''test-value''\<rparr>
                (100 * Millisecond) (NewMockRedis 0)))
        [OpRun 0, OpElapse (150 * Millisecond)]
   \<and> 100 * Millisecond < elapsed [OpRun 0, OpElapse (150 * Millisecond)]
   \<and> fst (MockRedis_Get
        (apply_ops
           (snd (AcquireLock_mock MockRedis_client
                   \<lparr>lock_key = ''test-key'', lock_value = ''test-value''\<rparr>
                   (100 * Millisecond) (NewMockRedis 0)))
           [OpRun 0, OpElapse (150 * Millisecond)])
        ''test-key'') = Inr ''test-value''
   \<and> fst (AcquireLock_mock MockRedis_client \<lparr>lock_key = ''test-key'', lock_value = ''fresh''\<rparr>
        Second
        (apply_ops
           (snd (AcquireLock_mock MockRedis_client
                   \<lparr>lock_key = ''test-key'', lock_value = ''test-value''\<rparr>
                   (100 * Millisecond) (NewMockRedis 0)))
           [OpRun 0, OpElapse (150 * Millisecond)])) = Inr False"
  by (simp add: AcquireLock_mock_def MockRedis_client_def MockRedis_SetNX_def MockRedis_Get_def
      NewMockRedis_def run_sleeper_def elapse_def Millisecond_def Second_def)

section \<open>Properties of the transaction processors\<close>

subsection \<open>The retry loop\<close>

lemma retry_shape:
  "retry_loop c env lock i s = (ex, s', evs) \<Longrightarrow> i < 3 \<Longrightarrow>
    \<exists>n r. n + i < 3 \<and> evs = concat (replicate n [Acquire (Inr False), Sleep (100 * Millisecond)]) @ [Acquire r]
      \<and> (ex = (case r of Inl e \<Rightarrow> Inl (AcquireError e) | Inr True \<Rightarrow> Inr () | Inr False \<Rightarrow> Inl LockSkipped))
      \<and> (r = Inr False \<longrightarrow> n + i = 2)"
proof (induction c env lock i s arbitrary: ex s' evs rule: retry_loop.induct)
  case (1 c env lock i s)
  obtain r s1 where a: "AcquireLock_mock c lock (5 * Second) s = (r, s1)"
    by (cases "AcquireLock_mock c lock (5 * Second) s")
  show ?case
  proof (cases "r = Inr False \<and> i \<noteq> 2")
    case False
    with a "1.prems" have "evs = [Acquire r]"
      and "ex = (case r of Inl e \<Rightarrow> Inl (AcquireError e) | Inr True \<Rightarrow> Inr () | Inr False \<Rightarrow> Inl LockSkipped)"
      and "r = Inr False \<longrightarrow> i = 2"
      by (auto simp: retry_loop.simps [of c env lock i s] split: sum.splits if_splits)
    then show ?thesis
      by (intro exI [of _ 0] exI [of _ r]) (use "1.prems" in simp)
  next
    case True
    then have r: "r = Inr False" and i: "i \<noteq> 2" by auto
    obtain ex2 s2 evs2
      where rec: "retry_loop c env lock (i + 1) (env (Sleeping i) s1) = (ex2, s2, evs2)"
      by (cases "retry_loop c env lock (i + 1) (env (Sleeping i) s1)")
    from a r i rec "1.prems" have ev: "evs = Acquire (Inr False) # Sleep (100 * Millisecond) # evs2"
      and ex: "ex = ex2"
      by (auto simp: retry_loop.simps [of c env lock i s])
    from i "1.prems" have lt: "i + 1 < 3" by simp
    from "1.IH" [of r s1 False ex2 s2 evs2] "1.prems"(2) a r i rec lt
    obtain n r' where n: "n + (i + 1) < 3"
      and e2: "evs2 = concat (replicate n [Acquire (Inr False), Sleep (100 * Millisecond)]) @ [Acquire r']"
      and x2: "ex2 = (case r' of Inl e \<Rightarrow> Inl (AcquireError e) | Inr True \<Rightarrow> Inr () | Inr False \<Rightarrow> Inl LockSkipped)"
      and f2: "r' = Inr False \<longrightarrow> n + (i + 1) = 2"
      by auto
    show ?thesis
      by (intro exI [of _ "Suc n"] exI [of _ r']) (use n e2 x2 f2 ev ex in simp)
  qed
qed

lemma retry_from_0:
  assumes "retry_loop c env lock 0 s = (ex, s', evs)"
  shows "\<exists>r. (evs = [Acquire r]
            \<or> evs = [Acquire (Inr False), Sleep (100 * Millisecond), Acquire r]
            \<or> evs = [Acquire (Inr False), Sleep (100 * Millisecond),
                      Acquire (Inr False), Sleep (100 * Millisecond), Acquire r])
          \<and> (r = Inr False \<longrightarrow>
                evs = [Acquire (Inr False), Sleep (100 * Millisecond),
                       Acquire (Inr False), Sleep (100 * Millisecond), Acquire (Inr False)])
          \<and> ex = (case r of Inl e \<Rightarrow> Inl (AcquireError e) | Inr True \<Rightarrow> Inr ()
                   | Inr False \<Rightarrow> Inl LockSkipped)"
proof -
  from retry_shape [OF assms] obtain n r where n: "n < 3"
    and evs: "evs = concat (replicate n [Acquire (Inr False), Sleep (100 * Millisecond)]) @ [Acquire r]"
    and ex: "ex = (case r of Inl e \<Rightarrow> Inl (AcquireError e) | Inr True \<Rightarrow> Inr () | Inr False \<Rightarrow> Inl LockSkipped)"
    and f: "r = Inr False \<longrightarrow> n = 2"
    by auto
  from n have "n = 0 \<or> n = 1 \<or> n = 2" by arith
  then show ?thesis
  proof (elim disjE)
    assume "n = 0"
    with evs ex f show ?thesis by (intro exI [of _ r]) simp
  next
    assume "n = 1"
    with evs ex f show ?thesis by (intro exI [of _ r]) simp
  next
    assume "n = 2"
    with evs ex f show ?thesis by (intro exI [of _ r]) (simp add: numeral_2_eq_2)
  qed
qed

lemma retry_first_event:
  "hd (snd (snd (retry_loop c env lock 0 s))) = Acquire (fst (AcquireLock_mock c lock (5 * Second) s))"
proof -
  obtain r s1 where a: "AcquireLock_mock c lock (5 * Second) s = (r, s1)"
    by (cases "AcquireLock_mock c lock (5 * Second) s")
  then show ?thesis
    by (cases r) (simp_all add: retry_loop.simps [of c env lock 0 s] split: prod.splits)
qed

text \<open>
  C7. \<^verbatim>\<open>ProcessTransaction\<close> of the mock program, on any client and whatever happens to the
  store while it sleeps, makes one, two or three calls of \<^verbatim>\<open>AcquireLock\<close>, with one sleep of
  100 ms between two of them, and every call but the last returned \<^verbatim>\<open>false\<close>. When the last
  returned \<^verbatim>\<open>false\<close> too, there were three, the transaction is reported as skipped and the
  account is as before; when it returned an error, that error is reported and the account is
  as before; when it returned \<^verbatim>\<open>true\<close>, the critical section ran.
\<close>

theorem C7_retry:
  fixes account :: "('a::{plus,zero,ord}) Account"
  shows
    "\<exists>r. (events (ProcessTransaction_mock c env nano account transaction s) = [Acquire r]
          \<or> events (ProcessTransaction_mock c env nano account transaction s)
              = [Acquire (Inr False), Sleep (100 * Millisecond), Acquire r]
          \<or> events (ProcessTransaction_mock c env nano account transaction s)
              = [Acquire (Inr False), Sleep (100 * Millisecond),
                 Acquire (Inr False), Sleep (100 * Millisecond), Acquire r])
       \<and> (r = Inr False \<longrightarrow>
            events (ProcessTransaction_mock c env nano account transaction s)
              = [Acquire (Inr False), Sleep (100 * Millisecond),
                 Acquire (Inr False), Sleep (100 * Millisecond), Acquire (Inr False)]
            \<and> printed (ProcessTransaction_mock c env nano account transaction s) = LockSkipped
            \<and> account_after (ProcessTransaction_mock c env nano account transaction s) = account)
       \<and> (\<forall>err. r = Inl err \<longrightarrow>
            printed (ProcessTransaction_mock c env nano account transaction s) = AcquireError err
            \<and> account_after (ProcessTransaction_mock c env nano account transaction s) = account)
       \<and> (r = Inr True \<longrightarrow>
            (printed (ProcessTransaction_mock c env nano account transaction s),
             account_after (ProcessTransaction_mock c env nano account transaction s))
              = Account_ProcessTransaction account (Amount transaction))"
proof -
  obtain ex s' evs where l: "retry_loop c env (NewLock_mock nano account) 0 s = (ex, s', evs)"
    by (cases "retry_loop c env (NewLock_mock nano account) 0 s")
  from retry_from_0 [OF l] obtain r where
    sh: "evs = [Acquire r]
            \<or> evs = [Acquire (Inr False), Sleep (100 * Millisecond), Acquire r]
            \<or> evs = [Acquire (Inr False), Sleep (100 * Millisecond),
                      Acquire (Inr False), Sleep (100 * Millisecond), Acquire r]"
    and f: "r = Inr False \<longrightarrow>
                evs = [Acquire (Inr False), Sleep (100 * Millisecond),
                       Acquire (Inr False), Sleep (100 * Millisecond), Acquire (Inr False)]"
    and ex: "ex = (case r of Inl e \<Rightarrow> Inl (AcquireError e) | Inr True \<Rightarrow> Inr ()
                   | Inr False \<Rightarrow> Inl LockSkipped)"
    by blast
  have ev: "events (ProcessTransaction_mock c env nano account transaction s) = evs"
    using l by (simp add: ProcessTransaction_mock_def Let_def split: sum.splits)
  have skip: "r = Inr False \<Longrightarrow>
      printed (ProcessTransaction_mock c env nano account transaction s) = LockSkipped
      \<and> account_after (ProcessTransaction_mock c env nano account transaction s) = account"
    using l ex by (simp add: ProcessTransaction_mock_def Let_def)
  have err: "\<And>e. r = Inl e \<Longrightarrow>
      printed (ProcessTransaction_mock c env nano account transaction s) = AcquireError e
      \<and> account_after (ProcessTransaction_mock c env nano account transaction s) = account"
    using l ex by (simp add: ProcessTransaction_mock_def Let_def)
  have ok: "r = Inr True \<Longrightarrow>
      (printed (ProcessTransaction_mock c env nano account transaction s),
        account_after (ProcessTransaction_mock c env nano account transaction s))
        = Account_ProcessTransaction account (Amount transaction)"
    using l ex by (simp add: ProcessTransaction_mock_def Account_ProcessTransaction_def Let_def)
  show ?thesis
    by (rule exI [of _ r]) (use sh f ev skip err ok in simp)
qed

lemmas mock_eval =
  ProcessTransaction_mock_def NewLock_mock_def AcquireLock_mock_def ReleaseLock_mock_def
  MockRedis_client_def MockRedis_SetNX_def MockRedis_Get_def MockRedis_Del_def elapse_def
  alone_def Sprintf_d_def Let_def Second_def Millisecond_def

theorem C7_retry_witness:
  "events (ProcessTransaction_mock MockRedis_client alone 42
      \<lparr>AccountNumber = ''11111'', Balance = 1000 :: int\<rparr>
      \<lparr>TxAccountNumber = ''11111'', Amount = - 200\<rparr>
      \<lparr>data = [''account:11111:lock'' \<mapsto> ''other''], timers = [], clock = 0\<rparr>)
     = [Acquire (Inr False), Sleep (100 * Millisecond),
        Acquire (Inr False), Sleep (100 * Millisecond), Acquire (Inr False)]
   \<and> printed (ProcessTransaction_mock MockRedis_client alone 42
      \<lparr>AccountNumber = ''11111'', Balance = 1000 :: int\<rparr>
      \<lparr>TxAccountNumber = ''11111'', Amount = - 200\<rparr>
      \<lparr>data = [''account:11111:lock'' \<mapsto> ''other''], timers = [], clock = 0\<rparr>) = LockSkipped
   \<and> account_after (ProcessTransaction_mock MockRedis_client alone 42
      \<lparr>AccountNumber = ''11111'', Balance = 1000 :: int\<rparr>
      \<lparr>TxAccountNumber = ''11111'', Amount = - 200\<rparr>
      \<lparr>data = [''account:11111:lock'' \<mapsto> ''other''], timers = [], clock = 0\<rparr>)
     = \<lparr>AccountNumber = ''11111'', Balance = 1000\<rparr>
   \<and> printed (ProcessTransaction_mock
      \<lparr>SetNX = \<lambda>s k v t. (Inl (StoreFailure ''down''), s),
        Get = \<lambda>s k. (Inl (StoreFailure ''down''), s),
        Del = \<lambda>s k. (Inl (StoreFailure ''down''), s)\<rparr>
      (\<lambda>p s. s) 42
      \<lparr>AccountNumber = ''11111'', Balance = 1000 :: int\<rparr>
      \<lparr>TxAccountNumber = ''11111'', Amount = - 200\<rparr> ())
     = AcquireError (StoreFailure ''down'')
   \<and> account_after (ProcessTransaction_mock
      \<lparr>SetNX = \<lambda>s k v t. (Inl (StoreFailure ''down''), s),
        Get = \<lambda>s k. (Inl (StoreFailure ''down''), s),
        Del = \<lambda>s k. (Inl (StoreFailure ''down''), s)\<rparr>
      (\<lambda>p s. s) 42
      \<lparr>AccountNumber = ''11111'', Balance = 1000 :: int\<rparr>
      \<lparr>TxAccountNumber = ''11111'', Amount = - 200\<rparr> ())
     = \<lparr>AccountNumber = ''11111'', Balance = 1000\<rparr>"
proof -
  define held where
    "held = ProcessTransaction_mock MockRedis_client alone 42
      \<lparr>AccountNumber = ''11111'', Balance = 1000 :: int\<rparr>
      \<lparr>TxAccountNumber = ''11111'', Amount = - 200\<rparr>
      \<lparr>data = [''account:11111:lock'' \<mapsto> ''other''], timers = [], clock = 0\<rparr>"
  define down where
    "down = ProcessTransaction_mock
      \<lparr>SetNX = \<lambda>s k v t. (Inl (StoreFailure ''down''), s),
        Get = \<lambda>s k. (Inl (StoreFailure ''down''), s),
        Del = \<lambda>s k. (Inl (StoreFailure ''down''), s)\<rparr>
      (\<lambda>p s. s) 42
      \<lparr>AccountNumber = ''11111'', Balance = 1000 :: int\<rparr>
      \<lparr>TxAccountNumber = ''11111'', Amount = - 200\<rparr> ()"
  have ev: "events held = [Acquire (Inr False), Sleep (100 * Millisecond),
        Acquire (Inr False), Sleep (100 * Millisecond), Acquire (Inr False)]"
    by (simp add: held_def mock_eval retry_loop.simps)
  have ev': "events down = [Acquire (Inl (StoreFailure ''down''))]"
    by (simp add: down_def mock_eval retry_loop.simps)
  from C7_retry [of MockRedis_client alone 42
      "\<lparr>AccountNumber = ''11111'', Balance = 1000 :: int\<rparr>"
      "\<lparr>TxAccountNumber = ''11111'', Amount = - 200\<rparr>"
      "\<lparr>data = [''account:11111:lock'' \<mapsto> ''other''], timers = [], clock = 0\<rparr>",
      folded held_def]
  obtain r where sh: "events held = [Acquire r]
          \<or> events held = [Acquire (Inr False), Sleep (100 * Millisecond), Acquire r]
          \<or> events held = [Acquire (Inr False), Sleep (100 * Millisecond),
                 Acquire (Inr False), Sleep (100 * Millisecond), Acquire r]"
    and sk: "r = Inr False \<longrightarrow> printed held = LockSkipped
        \<and> account_after held = \<lparr>AccountNumber = ''11111'', Balance = 1000\<rparr>"
    by blast
  from sh ev have "r = Inr False" by simp
  with sk have 1: "printed held = LockSkipped"
    and 2: "account_after held = \<lparr>AccountNumber = ''11111'', Balance = 1000\<rparr>"
    by simp_all
  from C7_retry [of "\<lparr>SetNX = \<lambda>s k v t. (Inl (StoreFailure ''down''), s),
        Get = \<lambda>s k. (Inl (StoreFailure ''down''), s),
        Del = \<lambda>s k. (Inl (StoreFailure ''down''), s)\<rparr>" "\<lambda>p s. s" 42
      "\<lparr>AccountNumber = ''11111'', Balance = 1000 :: int\<rparr>"
      "\<lparr>TxAccountNumber = ''11111'', Amount = - 200\<rparr>" "()",
      folded down_def]
  obtain r' where sh': "events down = [Acquire r']
          \<or> events down = [Acquire (Inr False), Sleep (100 * Millisecond), Acquire r']
          \<or> events down = [Acquire (Inr False), Sleep (100 * Millisecond),
                 Acquire (Inr False), Sleep (100 * Millisecond), Acquire r']"
    and er: "\<forall>err. r' = Inl err \<longrightarrow> printed down = AcquireError err
        \<and> account_after down = \<lparr>AccountNumber = ''11111'', Balance = 1000\<rparr>"
    by blast
  from sh' ev' have "r' = Inl (StoreFailure ''down'')" by simp
  with er have 3: "printed down = AcquireError (StoreFailure ''down'')"
    and 4: "account_after down = \<lparr>AccountNumber = ''11111'', Balance = 1000\<rparr>"
    by simp_all
  from ev 1 2 3 4 show ?thesis
    unfolding held_def down_def by blast
qed

subsection \<open>Tokens\<close>

text \<open>
  C9. The token \<^verbatim>\<open>ProcessTransaction\<close> presents to the store. In \<^verbatim>\<open>distributed/redis\<close> the call
  of \<^verbatim>\<open>SetNX\<close> carries the constant \<^verbatim>\<open>unique-identifier\<close>, so the tokens of any two calls
  are equal. In the mock program it carries the reading of the clock, so the tokens of two
  calls that read the same nanosecond are equal.
\<close>

theorem C9_same_token:
  "events (ProcessTransaction_redis c env' account transaction s)
     = [Acquire (fst (SetNX c s (''account:'' @ AccountNumber account @ '':lock'')
                        ''unique-identifier'' (5 * Second)))]
   \<and> hd (events (ProcessTransaction_mock c env nano account transaction s))
     = Acquire (fst (SetNX c s (''account:'' @ AccountNumber account @ '':lock'')
                       (''unique-identifier-'' @ Sprintf_d nano) (5 * Second)))
   \<and> lock_value (NewLock_redis account) = lock_value (NewLock_redis account')
   \<and> lock_value (NewLock_mock nano account) = lock_value (NewLock_mock nano account')"
proof -
  have 1: "events (ProcessTransaction_redis c env' account transaction s)
     = [Acquire (fst (SetNX c s (''account:'' @ AccountNumber account @ '':lock'')
                        ''unique-identifier'' (5 * Second)))]"
    by (simp add: ProcessTransaction_redis_def NewLock_redis_def AcquireLock_def Let_def
        split: prod.splits sum.splits)
  have 2: "hd (events (ProcessTransaction_mock c env nano account transaction s))
     = Acquire (fst (SetNX c s (''account:'' @ AccountNumber account @ '':lock'')
                       (''unique-identifier-'' @ Sprintf_d nano) (5 * Second)))"
  proof -
    have "events (ProcessTransaction_mock c env nano account transaction s)
        = snd (snd (retry_loop c env (NewLock_mock nano account) 0 s))"
      by (simp add: ProcessTransaction_mock_def Let_def split: prod.splits sum.splits)
    with retry_first_event [of c env "NewLock_mock nano account" s] show ?thesis
      by (simp add: AcquireLock_mock_def NewLock_mock_def)
  qed
  show ?thesis
    using 1 2 by (simp add: NewLock_redis_def NewLock_mock_def)
qed

subsection \<open>The scenario of \<^verbatim>\<open>main\<close>\<close>

lemma inserts_mem: "as @ x # bs \<in> set (inserts x (as @ bs))"
  by (induction as) (cases bs; auto)+

lemma orders_complete: "mset ys = mset xs \<Longrightarrow> ys \<in> set (orders xs)"
proof (induction xs arbitrary: ys)
  case Nil
  then show ?case by simp
next
  case (Cons x xs)
  from Cons.prems have "x \<in> set ys"
    by (metis list.set_intros(1) mset_eq_setD)
  then obtain as bs where ys: "ys = as @ x # bs"
    by (auto dest: split_list)
  with Cons.prems have "mset (as @ bs) = mset xs" by simp
  from Cons.IH [OF this] have "as @ bs \<in> set (orders xs)" .
  with inserts_mem [of as x bs] ys show ?case by auto
qed

text \<open>
  The mock program on \<^verbatim>\<open>MockRedis\<close>: a call that finds the key of its account free takes the
  lock at the first attempt, runs the critical section and leaves the key free. So a run of
  the test in which the calls follow one another does to the accounts what \<open>main_loop\<close>
  does, whatever the readings of the clock.
\<close>

lemma mock_free_run:
  assumes "data r (''account:'' @ AccountNumber a @ '':lock'') = None"
  shows "(printed (ProcessTransaction_mock MockRedis_client alone nano a t r),
          account_after (ProcessTransaction_mock MockRedis_client alone nano a t r))
           = Account_ProcessTransaction a (Amount t)
     \<and> data (store_after (ProcessTransaction_mock MockRedis_client alone nano a t r)) = data r
     \<and> events (ProcessTransaction_mock MockRedis_client alone nano a t r) = [Acquire (Inr True)]"
  using assms
  by (simp add: ProcessTransaction_mock_def NewLock_mock_def AcquireLock_mock_def
      ReleaseLock_mock_def MockRedis_client_def MockRedis_SetNX_def MockRedis_Get_def
      MockRedis_Del_def Account_ProcessTransaction_def Let_def retry_loop.simps [of _ _ _ 0 r]
      alone_def fun_upd_idem)

lemma test_loop_mock_serial:
  assumes "data r = Map.empty"
  shows "fst (test_loop_mock accounts r nts) = fst (main_loop accounts (map snd nts))
     \<and> snd (snd (test_loop_mock accounts r nts)) = snd (main_loop accounts (map snd nts))
     \<and> data (fst (snd (test_loop_mock accounts r nts))) = Map.empty"
  using assms
proof (induction nts arbitrary: accounts r)
  case Nil
  then show ?case by simp
next
  case (Cons nt nts)
  obtain nano t where nt: "nt = (nano, t)" by (cases nt)
  show ?case
  proof (cases "accounts (TxAccountNumber t)")
    case None
    with Cons.IH [OF Cons.prems, of accounts] nt show ?thesis
      by (auto split: prod.splits)
  next
    case (Some a)
    define run where
      "run = ProcessTransaction_mock MockRedis_client alone nano a t r"
    define accounts1 where "accounts1 = accounts(TxAccountNumber t \<mapsto> account_after run)"
    from Cons.prems have "data r (''account:'' @ AccountNumber a @ '':lock'') = None" by simp
    from mock_free_run [OF this, of nano t] Cons.prems
    have step: "Account_ProcessTransaction a (Amount t) = (printed run, account_after run)"
      and free: "data (store_after run) = Map.empty"
      by (simp_all add: run_def)
    obtain acc2 r2 log2 where tl: "test_loop_mock accounts1 (store_after run) nts = (acc2, r2, log2)"
      by (cases "test_loop_mock accounts1 (store_after run) nts")
    obtain acc3 log3 where ml: "main_loop accounts1 (map snd nts) = (acc3, log3)"
      by (cases "main_loop accounts1 (map snd nts)")
    from Cons.IH [OF free, of accounts1] tl ml
    have eq: "acc2 = acc3" "log2 = log3" "data r2 = Map.empty" by simp_all
    have "test_loop_mock accounts r (nt # nts) = (acc2, r2, (t, printed run) # log2)"
      using Some nt tl by (simp add: Let_def run_def [symmetric] accounts1_def [symmetric])
    moreover have "main_loop accounts (map snd (nt # nts)) = (acc3, (t, printed run) # log3)"
      using Some nt ml step by (simp add: accounts1_def [symmetric])
    ultimately show ?thesis using eq by simp
  qed
qed

lemma scenario_all_orders:
  assumes "mset order = mset (transactions0 :: ('a::linordered_idom) Transaction list)"
  shows "map_option Balance (fst (main_loop accounts0 order) ''11111'') = Some 1200
     \<and> map_option Balance (fst (main_loop accounts0 order) ''22222'') = Some 1500
     \<and> filter (\<lambda>p. snd p \<noteq> Processed) (snd (main_loop accounts0 order))
         = [(\<lparr>TxAccountNumber = ''22222'', Amount = - 3000\<rparr>, InsufficientFunds)]"
proof -
  from orders_complete [OF assms]
  have "order \<in> set (orders (transactions0 :: 'a Transaction list))" .
  then show ?thesis
    unfolding transactions0_def accounts0_def
    by (simp, elim disjE) (simp_all add: Account_ProcessTransaction_def)
qed

text \<open>
  C5. From the balances 1000 and 2000 of \<^verbatim>\<open>main\<close>, in every order in which the critical
  sections of its five transactions follow one another (every order of the five induces an
  order for each account, and every pair of such orders comes from one), account 11111 ends
  with 1200 and account 22222 with 1500, and the one transaction that is not processed is
  that of \<open>- 3000\<close> on 22222, reported with insufficient funds. The same holds of the test of
  the mock program when its calls follow one another in that order, from a store without
  records and whatever the readings of the clock.
\<close>

theorem C5_scenario:
  assumes "mset order = mset (transactions0 :: ('a::linordered_idom) Transaction list)"
    and "length nanos = length order"
    and "data r = Map.empty"
  shows "map_option Balance (fst (main_loop accounts0 order) ''11111'') = Some 1200
     \<and> map_option Balance (fst (main_loop accounts0 order) ''22222'') = Some 1500
     \<and> filter (\<lambda>p. snd p \<noteq> Processed) (snd (main_loop accounts0 order))
         = [(\<lparr>TxAccountNumber = ''22222'', Amount = - 3000\<rparr>, InsufficientFunds)]
     \<and> map_option Balance (fst (test_loop_mock accounts0 r (zip nanos order)) ''11111'')
         = Some 1200
     \<and> map_option Balance (fst (test_loop_mock accounts0 r (zip nanos order)) ''22222'')
         = Some 1500
     \<and> filter (\<lambda>p. snd p \<noteq> Processed) (snd (snd (test_loop_mock accounts0 r (zip nanos order))))
         = [(\<lparr>TxAccountNumber = ''22222'', Amount = - 3000\<rparr>, InsufficientFunds)]"
proof -
  from assms(2) have "map snd (zip nanos order) = order" by simp
  with test_loop_mock_serial [OF assms(3), of accounts0 "zip nanos order"]
  have "fst (test_loop_mock accounts0 r (zip nanos order)) = fst (main_loop accounts0 order)"
    and "snd (snd (test_loop_mock accounts0 r (zip nanos order))) = snd (main_loop accounts0 order)"
    by simp_all
  with scenario_all_orders [OF assms(1)] show ?thesis by simp
qed

theorem C5_scenario_witness:
  "mset (rev transactions0) = mset (transactions0 :: int Transaction list)
   \<and> map_option Balance (fst (main_loop accounts0 (rev transactions0 :: int Transaction list))
        ''11111'') = Some 1200
   \<and> map_option Balance (fst (main_loop accounts0 (rev transactions0 :: int Transaction list))
        ''22222'') = Some 1500
   \<and> filter (\<lambda>p. snd p \<noteq> Processed)
        (snd (main_loop accounts0 (rev transactions0 :: int Transaction list)))
       = [(\<lparr>TxAccountNumber = ''22222'', Amount = - 3000\<rparr>, InsufficientFunds)]
   \<and> map_option Balance
        (fst (test_loop_mock accounts0 (NewMockRedis 0)
           (zip [1, 2, 3, 4, 5] (rev transactions0 :: int Transaction list))) ''22222'')
       = Some 1500"
proof -
  have h: "mset (rev transactions0) = mset (transactions0 :: int Transaction list)" by simp
  have l: "length [1, 2, 3, 4, 5 :: int] = length (rev transactions0 :: int Transaction list)"
    by (simp add: transactions0_def)
  have e: "data (NewMockRedis 0) = Map.empty" by (simp add: NewMockRedis_def)
  from C5_scenario [OF h l e] h show ?thesis by simp
qed

end
